theory Spec2Isabelle
  imports Main "HOL-Library.AList"
begin

section \<open>Python string operations used by the sources\<close>

text \<open>
  Python \<open>str\<close> values are modelled as \<open>string\<close>, one \<open>char\<close> per code point below 256.
  White space is that of \<open>str.isspace\<close> in this range, which \<open>strip\<close> and \<open>split\<close> use:
  the codes 9 to 13, 28 to 32, 133 (U+0085) and 160 (U+00A0). \<open>lower\<close> maps the capital
  letters of the range, \<open>A\<close> to \<open>Z\<close> and U+00C0 to U+00DE without the sign U+00D7, to their
  small letters. \<open>title\<close> is written for the letters \<open>A\<close> to \<open>Z\<close> and \<open>a\<close> to \<open>z\<close>, of which
  the module names of the explorer are made.
\<close>

definition startswith :: "string \<Rightarrow> string \<Rightarrow> bool" where
  "startswith s p = (take (length p) s = p)"

fun py_in :: "string \<Rightarrow> string \<Rightarrow> bool" where
  \<comment> \<open>\<open>sub in s\<close>: \<open>sub\<close> occurs in \<open>s\<close> as a contiguous block\<close>
  "py_in sub [] = (sub = [])"
| "py_in sub (c # cs) = (startswith (c # cs) sub \<or> py_in sub cs)"

definition apostrophe :: string where
  "apostrophe = [CHR 0x27]"

definition ord :: "char \<Rightarrow> nat" where
  "ord c = of_char c"

definition lower_char :: "char \<Rightarrow> char" where
  "lower_char c =
     (if (65 \<le> ord c \<and> ord c \<le> 90) \<or> (192 \<le> ord c \<and> ord c \<le> 222 \<and> ord c \<noteq> 215)
      then char_of (ord c + 32) else c)"

definition lower :: "string \<Rightarrow> string" where
  "lower s = map lower_char s"

definition upper_char :: "char \<Rightarrow> char" where
  "upper_char c = (if 97 \<le> ord c \<and> ord c \<le> 122 then char_of (ord c - 32) else c)"

definition is_alpha :: "char \<Rightarrow> bool" where
  "is_alpha c = ((65 \<le> ord c \<and> ord c \<le> 90) \<or> (97 \<le> ord c \<and> ord c \<le> 122))"

fun title_from :: "bool \<Rightarrow> string \<Rightarrow> string" where
  \<comment> \<open>\<open>str.title\<close>: the flag says that the previous character was a letter\<close>
  "title_from prev [] = []"
| "title_from prev (c # cs) =
     (if is_alpha c then (if prev then lower_char c else upper_char c) # title_from True cs
      else c # title_from False cs)"

definition title :: "string \<Rightarrow> string" where
  "title s = title_from False s"

definition is_space :: "char \<Rightarrow> bool" where
  "is_space c = (ord c \<in> {9, 10, 11, 12, 13, 28, 29, 30, 31, 32, 133, 160})"

definition strip :: "string \<Rightarrow> string" where
  "strip s = rev (dropWhile is_space (rev (dropWhile is_space s)))"



fun str_nat :: "nat \<Rightarrow> string" where
  \<comment> \<open>decimal digits of a natural number, as \<open>str(n)\<close>\<close>
  "str_nat n = (if n < 10 then [''0123456789'' ! n]
                else str_nat (n div 10) @ [''0123456789'' ! (n mod 10)])"

declare str_nat.simps [simp del]

definition fmt03 :: "nat \<Rightarrow> string" where
  \<comment> \<open>the format \<open>{n:03d}\<close>: zero-padded to at least three digits\<close>
  "fmt03 n = replicate (3 - length (str_nat n)) (CHR ''0'') @ str_nat n"

definition truthy_or :: "string \<Rightarrow> string \<Rightarrow> string" where
  \<comment> \<open>\<open>a or b\<close> on strings: the empty string is falsy\<close>
  "truthy_or a b = (if a = [] then b else a)"

definition opt_or :: "string option \<Rightarrow> string \<Rightarrow> string" where
  \<comment> \<open>\<open>a or b\<close> where \<open>a\<close> is \<open>None\<close> or a string\<close>
  "opt_or a b = (case a of None \<Rightarrow> b | Some s \<Rightarrow> truthy_or s b)"


section \<open>The planner (testbounty\_agent/src/agents/planner.py)\<close>

subsection \<open>Data model\<close>

datatype ScenarioType = HAPPY_PATH | ERROR_PATH | EDGE_CASE | SECURITY

fun ScenarioType_value :: "ScenarioType \<Rightarrow> string" where
  "ScenarioType_value HAPPY_PATH = ''happy_path''"
| "ScenarioType_value ERROR_PATH = ''error_path''"
| "ScenarioType_value EDGE_CASE = ''edge_case''"
| "ScenarioType_value SECURITY = ''security''"

datatype Priority = HIGH | MEDIUM | LOW

fun Priority_value :: "Priority \<Rightarrow> string" where
  "Priority_value HIGH = ''high''"
| "Priority_value MEDIUM = ''medium''"
| "Priority_value LOW = ''low''"

record TestStep =
  st_action :: string
  st_target :: string
  st_value :: "string option"
  st_description :: string

definition Step :: "string \<Rightarrow> string \<Rightarrow> string option \<Rightarrow> string \<Rightarrow> TestStep" where
  "Step a t v d = \<lparr>st_action = a, st_target = t, st_value = v, st_description = d\<rparr>"

record TestScenario =
  sc_id :: string
  sc_name :: string
  sc_description :: string
  sc_module :: string
  sc_type :: ScenarioType
  sc_priority :: Priority
  sc_depends_on :: "string option"
  sc_steps :: "TestStep list"
  sc_status :: string

text \<open>The dictionary that \<open>TestScenario.to_dict\<close> returns.\<close>

record ScenarioDict =
  d_id :: string
  d_name :: string
  d_description :: string
  d_module :: string
  d_type :: string
  d_priority :: string
  d_depends_on :: "string option"
  d_steps :: "TestStep list"
  d_status :: string

definition to_dict :: "TestScenario \<Rightarrow> ScenarioDict" where
  "to_dict s = \<lparr>d_id = sc_id s, d_name = sc_name s, d_description = sc_description s,
     d_module = sc_module s, d_type = ScenarioType_value (sc_type s),
     d_priority = Priority_value (sc_priority s), d_depends_on = sc_depends_on s,
     d_steps = sc_steps s, d_status = sc_status s\<rparr>"

text \<open>
  The app map, as the explorer writes it and the planner reads it. A key that the planner
  reads with \<open>d[k]\<close> is a field; a key read with \<open>d.get(k, default)\<close> whose default
  differs from the empty value is an \<open>option\<close>. The module dictionary is an association
  list in insertion order.
\<close>

record Field =
  fld_type :: string
  fld_name :: string
  fld_selector :: string

record Form =
  frm_id :: string
  frm_fields :: "Field list"
  frm_submit_text :: "string option"
  frm_submit_selector :: string

record Button =
  btn_text :: string
  btn_action :: string

record NavLink =
  lnk_text :: string
  lnk_href :: string

record Page =
  pg_url :: string
  pg_path :: string
  pg_title :: string
  pg_type :: string
  pg_forms :: "Form list"
  pg_buttons :: "Button list"
  pg_nav_links :: "NavLink list"
  pg_requires_auth :: "bool option"

record ModuleData =
  md_pages :: "Page list"
  md_requires_auth :: "bool option"

record AppMap =
  am_base_url :: string
  am_modules :: "(string \<times> ModuleData) list"

record PlannerAgent =
  scenarios :: "TestScenario list"
  scenario_counter :: nat

definition PlannerAgent_init :: PlannerAgent where
  "PlannerAgent_init = \<lparr>scenarios = [], scenario_counter = 0\<rparr>"

subsection \<open>Scenario ids\<close>

definition next_id :: "string \<Rightarrow> PlannerAgent \<Rightarrow> string \<times> PlannerAgent" where
  "next_id prefix st =
     (let st' = st\<lparr>scenario_counter := scenario_counter st + 1\<rparr>
      in (prefix @ ''_'' @ fmt03 (scenario_counter st'), st'))"

definition append_scenario ::
  "string \<Rightarrow> string \<Rightarrow> string \<Rightarrow> string \<Rightarrow> ScenarioType \<Rightarrow> Priority \<Rightarrow> string option \<Rightarrow>
   TestStep list \<Rightarrow> PlannerAgent \<Rightarrow> PlannerAgent" where
  \<comment> \<open>\<open>self.scenarios.append(TestScenario(id=self._next_id(prefix), ...))\<close>; the status is
      the dataclass default\<close>
  "append_scenario prefix nm descr modl ty prio dep steps st =
     (case next_id prefix st of (sid, st') \<Rightarrow>
        st'\<lparr>scenarios := scenarios st' @
          [\<lparr>sc_id = sid, sc_name = nm, sc_description = descr, sc_module = modl, sc_type = ty,
            sc_priority = prio, sc_depends_on = dep, sc_steps = steps,
            sc_status = ''pending''\<rparr>]\<rparr>)"

subsection \<open>Selectors captured from the forms of a page\<close>

record Selectors =
  sel_email :: "string option"
  sel_username :: "string option"
  sel_password :: "string option"
  sel_name :: "string option"
  sel_confirm_password :: "string option"
  sel_submit :: "string option"

definition no_selectors :: Selectors where
  "no_selectors = \<lparr>sel_email = None, sel_username = None, sel_password = None, sel_name = None,
     sel_confirm_password = None, sel_submit = None\<rparr>"

definition select_field :: "Field \<Rightarrow> Selectors \<Rightarrow> Selectors" where
  \<comment> \<open>the body of the loop over \<open>form.get('fields', [])\<close>\<close>
  "select_field field sels =
     (let field_name = lower (fld_name field);
          field_type = lower (fld_type field);
          selector = fld_selector field
      in if selector = [] then sels
         else if py_in ''email'' field_name \<or> field_type = ''email''
           then sels\<lparr>sel_email := Some selector\<rparr>
         else if py_in ''user'' field_name \<or> py_in ''login'' field_name
           then sels\<lparr>sel_username := Some selector\<rparr>
         else if py_in ''pass'' field_name \<or> field_type = ''password''
           then (if py_in ''confirm'' field_name \<or> py_in ''repeat'' field_name
                   then sels\<lparr>sel_confirm_password := Some selector\<rparr>
                 else if sel_password sels = None \<or> sel_password sels = Some []
                   then sels\<lparr>sel_password := Some selector\<rparr>
                 else sels)
         else if py_in ''name'' field_name \<and> \<not> py_in ''user'' field_name
           then sels\<lparr>sel_name := Some selector\<rparr>
         else sels)"

definition select_form :: "Form \<Rightarrow> Selectors \<Rightarrow> Selectors" where
  "select_form form sels =
     (let sels' = fold select_field (frm_fields form) sels
      in if frm_submit_selector form \<noteq> [] then sels'\<lparr>sel_submit := Some (frm_submit_selector form)\<rparr>
         else sels')"

definition get_form_selectors :: "Page \<Rightarrow> Selectors" where
  "get_form_selectors page = fold select_form (pg_forms page) no_selectors"

subsection \<open>Authentication scenarios\<close>

definition auth_page :: "Page \<Rightarrow> PlannerAgent \<Rightarrow> PlannerAgent" where
  \<comment> \<open>the body of the loop over the pages of the module \<open>auth\<close>\<close>
  "auth_page page st =
     (let sel = get_form_selectors page;
          email_selector = opt_or (sel_email sel) (opt_or (sel_username sel)
            ''input[type='email'], input[name='email'], input[name='username'], #Email'');
          password_selector = opt_or (sel_password sel)
            ''input[type='password'], input[name='password'], #Password'';
          submit_selector = opt_or (sel_submit sel)
            ''button[type='submit'], input[type='submit'], .login-button, .btn-login''
      in if pg_type page = ''login'' then
           (let st1 = append_scenario ''auth'' ''Valid Login'' ''Test login with valid credentials''
                  ''auth'' HAPPY_PATH HIGH None
                  [Step ''navigate'' (pg_url page) None ''Go to login page'',
                   Step ''fill'' email_selector (Some ''testuser@example.com'') ''Enter email/username'',
                   Step ''fill'' password_selector (Some ''TestPassword123!'') ''Enter password'',
                   Step ''click'' submit_selector None ''Click login button'',
                   Step ''wait'' ''navigation'' None ''Wait for redirect'',
                   Step ''assert'' ''url_changed'' None ''Verify redirected to dashboard''] st;
                st2 = append_scenario ''auth'' ''Invalid Password''
                  ''Test login with wrong password shows error'' ''auth'' ERROR_PATH HIGH None
                  [Step ''navigate'' (pg_url page) None ''Go to login page'',
                   Step ''fill'' email_selector (Some ''testuser@example.com'') ''Enter email'',
                   Step ''fill'' password_selector (Some ''wrongpassword'') ''Enter wrong password'',
                   Step ''click'' submit_selector None ''Click login'',
                   Step ''assert'' ''error_message_visible'' None ''Verify error message shown''] st1;
                st3 = append_scenario ''auth'' ''Empty Form Submission''
                  ''Test submitting empty login form'' ''auth'' EDGE_CASE MEDIUM None
                  [Step ''navigate'' (pg_url page) None ''Go to login page'',
                   Step ''click'' submit_selector None ''Click login without filling form'',
                   Step ''assert'' ''validation_error'' None ''Verify validation error shown''] st2
            in append_scenario ''auth'' ''SQL Injection Test''
                  ''Test login form against SQL injection'' ''auth'' SECURITY HIGH None
                  [Step ''navigate'' (pg_url page) None ''Go to login page'',
                   Step ''fill'' email_selector (Some (apostrophe @ '' OR '1'='1''))
                     ''Enter SQL injection payload'',
                   Step ''fill'' password_selector (Some (apostrophe @ '' OR '1'='1''))
                     ''Enter SQL injection in password'',
                   Step ''click'' submit_selector None ''Submit'',
                   Step ''assert'' ''no_unauthorized_access'' None ''Verify no unauthorized access''] st3)
         else if pg_type page = ''register'' then
           (let name_selector = opt_or (sel_name sel)
                  ''input[name='name'], input[name='fullname'], input[name='FirstName'], #FirstName'';
                confirm_pass_selector = opt_or (sel_confirm_password sel)
                  ''input[name='ConfirmPassword'], input[name='confirm_password'], #ConfirmPassword''
            in append_scenario ''auth'' ''Valid Registration'' ''Test registration with valid data''
                  ''auth'' HAPPY_PATH HIGH None
                  [Step ''navigate'' (pg_url page) None ''Go to register page'',
                   Step ''fill'' name_selector (Some ''Test User'') ''Enter name'',
                   Step ''fill'' email_selector (Some ''newuser@example.com'') ''Enter email'',
                   Step ''fill'' password_selector (Some ''SecurePass123!'') ''Enter password'',
                   Step ''fill'' confirm_pass_selector (Some ''SecurePass123!'') ''Confirm password'',
                   Step ''click'' submit_selector None ''Submit registration'',
                   Step ''assert'' ''success_or_redirect'' None ''Verify registration success''] st)
         else st)"

definition generate_auth_scenarios :: "ModuleData \<Rightarrow> PlannerAgent \<Rightarrow> PlannerAgent" where
  "generate_auth_scenarios module_data st = fold auth_page (md_pages module_data) st"

subsection \<open>Dashboard scenarios\<close>

definition dashboard_button :: "Page \<Rightarrow> string option \<Rightarrow> Button \<Rightarrow> PlannerAgent \<Rightarrow> PlannerAgent" where
  "dashboard_button page depends_on btn st =
     (if btn_action btn \<notin> set [''cancel'', ''close''] then
        append_scenario ''dash'' (''Click '' @ btn_text btn)
          (''Test clicking '' @ apostrophe @ btn_text btn @ apostrophe @ '' button on dashboard'')
          ''dashboard'' HAPPY_PATH MEDIUM depends_on
          [Step ''navigate'' (pg_url page) None ''Go to dashboard'',
           Step ''click'' (''button:has-text('' @ apostrophe @ btn_text btn @ apostrophe @ '')'') None
             (''Click '' @ btn_text btn),
           Step ''assert'' ''action_result'' None ''Verify action completed''] st
      else st)"

definition landing_link :: "Page \<Rightarrow> NavLink \<Rightarrow> PlannerAgent \<Rightarrow> PlannerAgent" where
  "landing_link page link st =
     (if lnk_text link \<noteq> [] then
        append_scenario ''dash'' (''Navigate to '' @ lnk_text link)
          (''Test navigation link '' @ apostrophe @ lnk_text link @ apostrophe)
          ''dashboard'' HAPPY_PATH LOW None
          [Step ''navigate'' (pg_url page) None ''Go to landing page'',
           Step ''click'' (''a:has-text('' @ apostrophe @ lnk_text link @ apostrophe @ '')'') None
             (''Click '' @ lnk_text link @ '' link''),
           Step ''assert'' ''navigation_success'' None ''Verify navigation works''] st
      else st)"

definition dashboard_page :: "string option \<Rightarrow> Page \<Rightarrow> PlannerAgent \<Rightarrow> PlannerAgent" where
  "dashboard_page depends_on page st =
     (if pg_type page = ''dashboard'' then
        (let st1 = append_scenario ''dash'' ''View Dashboard''
               ''Verify dashboard loads with correct elements'' ''dashboard'' HAPPY_PATH HIGH
               depends_on
               [Step ''navigate'' (pg_url page) None ''Go to dashboard'',
                Step ''assert'' ''page_loaded'' None ''Verify page loads'',
                Step ''assert'' ''key_elements_visible'' None ''Verify dashboard elements visible''] st
         in fold (dashboard_button page depends_on) (pg_buttons page) st1)
      else if pg_type page = ''landing'' then
        (let st1 = append_scenario ''dash'' ''View Landing Page''
               ''Verify landing page loads correctly'' ''dashboard'' HAPPY_PATH HIGH None
               [Step ''navigate'' (pg_url page) None ''Go to landing page'',
                Step ''assert'' ''page_loaded'' None ''Verify page loads'',
                Step ''assert'' ''cta_buttons_visible'' None ''Verify CTA buttons visible''] st
         in fold (landing_link page) (pg_nav_links page) st1)
      else st)"

definition generate_dashboard_scenarios :: "ModuleData \<Rightarrow> PlannerAgent \<Rightarrow> PlannerAgent" where
  "generate_dashboard_scenarios module_data st =
     (let requires_auth = (case md_requires_auth module_data of None \<Rightarrow> True | Some b \<Rightarrow> b);
          depends_on = (if requires_auth then Some ''auth_001'' else None)
      in fold (dashboard_page depends_on) (md_pages module_data) st)"

subsection \<open>Profile and settings scenarios\<close>

definition page_depends_on :: "Page \<Rightarrow> string option" where
  \<comment> \<open>\<open>"auth_001" if page.get('requires_auth', True) else None\<close>\<close>
  "page_depends_on page =
     (if (case pg_requires_auth page of None \<Rightarrow> True | Some b \<Rightarrow> b) then Some ''auth_001''
      else None)"

definition named_fields :: "Form \<Rightarrow> Field list" where
  \<comment> \<open>\<open>for f in form.get('fields', []) if f['name']\<close>\<close>
  "named_fields form = filter (\<lambda>f. fld_name f \<noteq> []) (frm_fields form)"

definition name_selector_of :: "Field \<Rightarrow> string" where
  "name_selector_of f = ''[name='' @ apostrophe @ fld_name f @ apostrophe @ '']''"

definition settings_form :: "Page \<Rightarrow> string option \<Rightarrow> Form \<Rightarrow> PlannerAgent \<Rightarrow> PlannerAgent" where
  "settings_form page depends_on form st =
     append_scenario ''profile'' (''Update '' @ frm_id form)
       (''Test updating settings via '' @ frm_id form) ''profile'' HAPPY_PATH MEDIUM depends_on
       ([Step ''navigate'' (pg_url page) None ''Go to settings''] @
        map (\<lambda>f. Step ''fill'' (name_selector_of f) (Some ''test_value'') (''Fill '' @ fld_name f))
          (named_fields form) @
        [Step ''click''
           (''#'' @ frm_id form @ '' button[type='submit'], button:has-text('' @ apostrophe @
            (case frm_submit_text form of None \<Rightarrow> ''Save'' | Some t \<Rightarrow> t) @ apostrophe @ '')'')
           None ''Submit form'',
         Step ''assert'' ''save_success'' None ''Verify save successful'']) st"

definition profile_page :: "Page \<Rightarrow> PlannerAgent \<Rightarrow> PlannerAgent" where
  "profile_page page st =
     (let depends_on = page_depends_on page
      in if pg_type page = ''settings'' then
           (let st1 = append_scenario ''profile'' ''View Settings'' ''Verify settings page loads''
                  ''profile'' HAPPY_PATH MEDIUM depends_on
                  [Step ''navigate'' (pg_url page) None ''Go to settings'',
                   Step ''assert'' ''page_loaded'' None ''Verify page loads''] st
            in fold (settings_form page depends_on) (pg_forms page) st1)
         else if pg_type page = ''profile'' then
           append_scenario ''profile'' ''View Profile'' ''Verify profile page loads''
             ''profile'' HAPPY_PATH MEDIUM depends_on
             [Step ''navigate'' (pg_url page) None ''Go to profile'',
              Step ''assert'' ''page_loaded'' None ''Verify page loads'',
              Step ''assert'' ''user_info_visible'' None ''Verify user info displayed''] st
         else st)"

definition generate_profile_scenarios :: "ModuleData \<Rightarrow> PlannerAgent \<Rightarrow> PlannerAgent" where
  "generate_profile_scenarios module_data st = fold profile_page (md_pages module_data) st"

subsection \<open>CRUD scenarios\<close>

definition crud_page :: "Page \<Rightarrow> PlannerAgent \<Rightarrow> PlannerAgent" where
  "crud_page page st =
     (let depends_on = page_depends_on page
      in if pg_type page = ''create'' then
           (let st1 = append_scenario ''crud'' ''Create New Item'' ''Test creating a new item''
                  ''crud'' HAPPY_PATH HIGH depends_on
                  ([Step ''navigate'' (pg_url page) None ''Go to create page''] @
                   map (\<lambda>f. Step ''fill'' (name_selector_of f) (Some (''Test '' @ fld_name f))
                                (''Fill '' @ fld_name f))
                     (concat (map named_fields (pg_forms page))) @
                   [Step ''click'' ''button[type='submit']'' None ''Submit form'',
                    Step ''assert'' ''create_success'' None ''Verify item created'']) st
            in append_scenario ''crud'' ''Create with Empty Form''
                  ''Test submitting empty create form'' ''crud'' EDGE_CASE MEDIUM depends_on
                  [Step ''navigate'' (pg_url page) None ''Go to create page'',
                   Step ''click'' ''button[type='submit']'' None ''Submit empty form'',
                   Step ''assert'' ''validation_error'' None ''Verify validation errors shown''] st1)
         else if pg_type page = ''list'' then
           append_scenario ''crud'' ''View List'' ''Test viewing list of items''
             ''crud'' HAPPY_PATH HIGH depends_on
             [Step ''navigate'' (pg_url page) None ''Go to list page'',
              Step ''assert'' ''list_visible'' None ''Verify list is displayed''] st
         else if pg_type page = ''edit'' then
           append_scenario ''crud'' ''Edit Item'' ''Test editing an existing item''
             ''crud'' HAPPY_PATH HIGH depends_on
             [Step ''navigate'' (pg_url page) None ''Go to edit page'',
              Step ''assert'' ''form_prefilled'' None ''Verify form has existing data'',
              Step ''fill'' ''input:first-of-type'' (Some ''Updated Value'') ''Modify a field'',
              Step ''click'' ''button[type='submit']'' None ''Submit changes'',
              Step ''assert'' ''update_success'' None ''Verify update successful''] st
         else st)"

definition generate_crud_scenarios :: "ModuleData \<Rightarrow> PlannerAgent \<Rightarrow> PlannerAgent" where
  "generate_crud_scenarios module_data st = fold crud_page (md_pages module_data) st"

subsection \<open>General scenarios\<close>

definition general_form :: "string \<Rightarrow> Page \<Rightarrow> string option \<Rightarrow> Form \<Rightarrow> PlannerAgent \<Rightarrow> PlannerAgent" where
  "general_form module_name page depends_on form st =
     append_scenario ''gen'' (''Submit '' @ frm_id form)
       (''Test form submission on '' @ pg_path page) module_name HAPPY_PATH MEDIUM depends_on
       ([Step ''navigate'' (pg_url page) None ''Go to page''] @
        map (\<lambda>f. Step ''fill'' (name_selector_of f) (Some ''test'') (''Fill '' @ fld_name f))
          (named_fields form) @
        [Step ''click'' ''button[type='submit']'' None ''Submit form'',
         Step ''assert'' ''form_submitted'' None ''Verify form processes'']) st"

definition general_page :: "string \<Rightarrow> Page \<Rightarrow> PlannerAgent \<Rightarrow> PlannerAgent" where
  "general_page module_name page st =
     (let depends_on = page_depends_on page;
          st1 = append_scenario ''gen'' (''View '' @ truthy_or (pg_title page) (pg_path page))
                  (''Test loading '' @ pg_url page) module_name HAPPY_PATH LOW depends_on
                  [Step ''navigate'' (pg_url page) None ''Navigate to page'',
                   Step ''assert'' ''page_loaded'' None ''Verify page loads without errors''] st
      in fold (general_form module_name page depends_on) (pg_forms page) st1)"

definition generate_general_scenarios :: "string \<Rightarrow> ModuleData \<Rightarrow> PlannerAgent \<Rightarrow> PlannerAgent" where
  "generate_general_scenarios module_name module_data st =
     fold (general_page module_name) (md_pages module_data) st"

subsection \<open>The plan\<close>

definition generate_module :: "string \<times> ModuleData \<Rightarrow> PlannerAgent \<Rightarrow> PlannerAgent" where
  \<comment> \<open>the body of the loop over \<open>self.modules.items()\<close>\<close>
  "generate_module m st =
     (case m of (module_name, module_data) \<Rightarrow>
        if module_name = ''auth'' then generate_auth_scenarios module_data st
        else if module_name = ''dashboard'' then generate_dashboard_scenarios module_data st
        else if module_name = ''profile'' then generate_profile_scenarios module_data st
        else if module_name = ''crud'' then generate_crud_scenarios module_data st
        else generate_general_scenarios module_name module_data st)"

definition planned :: "AppMap \<Rightarrow> TestScenario list" where
  \<comment> \<open>\<open>self.scenarios\<close> after the first loop of \<open>generate_scenarios\<close>, in emission order\<close>
  "planned app_map = scenarios (fold generate_module (am_modules app_map) PlannerAgent_init)"

record PlanModule =
  pm_name :: string
  pm_requires_auth :: bool
  pm_scenarios :: "ScenarioDict list"

record Plan =
  plan_base_url :: string
  plan_total_scenarios :: nat
  plan_modules :: "(string \<times> PlanModule) list"

definition group_scenario ::
  "(string \<times> ModuleData) list \<Rightarrow> TestScenario \<Rightarrow> (string \<times> PlanModule) list \<Rightarrow>
   (string \<times> PlanModule) list" where
  \<comment> \<open>the body of the loop that groups the scenarios by module; the dictionary keeps its
      insertion order\<close>
  "group_scenario mods scenario out =
     (case map_of out (sc_module scenario) of
        None \<Rightarrow> out @
          [(sc_module scenario,
            \<lparr>pm_name = title (sc_module scenario),
             pm_requires_auth =
               (case map_of mods (sc_module scenario) of None \<Rightarrow> False
                | Some md \<Rightarrow> (case md_requires_auth md of None \<Rightarrow> False | Some b \<Rightarrow> b)),
             pm_scenarios = [to_dict scenario]\<rparr>)]
      | Some m \<Rightarrow>
          AList.update (sc_module scenario)
            (m\<lparr>pm_scenarios := pm_scenarios m @ [to_dict scenario]\<rparr>) out)"

definition generate_scenarios :: "AppMap \<Rightarrow> Plan" where
  "generate_scenarios app_map =
     (let scs = planned app_map
      in \<lparr>plan_base_url = am_base_url app_map,
          plan_total_scenarios = length scs,
          plan_modules = fold (group_scenario (am_modules app_map)) scs []\<rparr>)"

definition generate_test_plan :: "AppMap \<Rightarrow> Plan" where
  "generate_test_plan app_map = generate_scenarios app_map"

subsection \<open>Properties of plans\<close>

definition prefixes :: "string list" where
  "prefixes = [''auth'', ''dash'', ''profile'', ''crud'', ''gen'']"

definition ok_emit :: "string \<Rightarrow> string option \<Rightarrow> bool" where
  \<comment> \<open>what a call of \<open>append_scenario\<close> in the generators passes as prefix and dependency\<close>
  "ok_emit prefix dep =
     (prefix \<in> set prefixes \<and> (dep = None \<or> (dep = Some ''auth_001'' \<and> prefix \<noteq> ''auth'')))"

definition emitted_ok :: "nat \<Rightarrow> TestScenario \<Rightarrow> bool" where
  \<comment> \<open>the scenario at position \<open>i\<close> (from 0) of the emission order\<close>
  "emitted_ok i s =
     ((\<exists>p \<in> set prefixes. sc_id s = p @ ''_'' @ fmt03 (Suc i) \<and> ok_emit p (sc_depends_on s)) \<and>
      sc_status s = ''pending'')"

definition plan_inv :: "PlannerAgent \<Rightarrow> bool" where
  "plan_inv st =
     (scenario_counter st = length (scenarios st) \<and>
      (\<forall>i < length (scenarios st). emitted_ok i (scenarios st ! i)))"

definition module_total :: "(string \<times> PlanModule) list \<Rightarrow> nat" where
  \<comment> \<open>the sum over all modules of the number of scenarios listed in the module\<close>
  "module_total out = sum_list (map (\<lambda>km. length (pm_scenarios (snd km))) out)"

definition grouped :: "TestScenario list \<Rightarrow> (string \<times> PlanModule) list \<Rightarrow> bool" where
  "grouped scs out =
     (distinct (map fst out) \<and> set (map fst out) = set (map sc_module scs) \<and>
      module_total out = length scs \<and>
      (\<forall>km \<in> set out.
         pm_scenarios (snd km) = map to_dict (filter (\<lambda>s. sc_module s = fst km) scs)))"

text \<open>
  The numbering that the specification describes: the numeric suffixes of each prefix
  family count up from 001 within the family.
\<close>

definition family :: "string \<Rightarrow> TestScenario list \<Rightarrow> string list" where
  \<comment> \<open>the ids of the prefix family \<open>p\<close>, in emission order\<close>
  "family p scs = filter (\<lambda>i. startswith i (p @ ''_'')) (map sc_id scs)"

definition sequential_per_prefix :: "TestScenario list \<Rightarrow> bool" where
  "sequential_per_prefix scs =
     (\<forall>p \<in> set prefixes.
        family p scs = map (\<lambda>k. p @ ''_'' @ fmt03 (Suc k)) [0 ..< length (family p scs)])"

subsection \<open>Example app maps\<close>

definition login_form :: Form where
  "login_form = \<lparr>frm_id = ''form_0'',
     frm_fields =
       [\<lparr>fld_type = ''text'', fld_name = ''username'',
         fld_selector = ''#username, input[name='username'], [name='username']''\<rparr>,
        \<lparr>fld_type = ''password'', fld_name = ''password'',
         fld_selector = ''#password, input[name='password'], [name='password']''\<rparr>],
     frm_submit_text = Some ''Sign in'', frm_submit_selector = ''#login-btn''\<rparr>"

definition login_page :: Page where
  "login_page = \<lparr>pg_url = ''https://host/login'', pg_path = ''/login'', pg_title = ''Sign in'',
     pg_type = ''login'', pg_forms = [login_form], pg_buttons = [], pg_nav_links = [],
     pg_requires_auth = Some False\<rparr>"

definition login_only_map :: AppMap where
  "login_only_map = \<lparr>am_base_url = ''https://host'',
     am_modules = [(''auth'', \<lparr>md_pages = [login_page], md_requires_auth = Some False\<rparr>)]\<rparr>"

definition landing_page :: Page where
  "landing_page = \<lparr>pg_url = ''https://host'', pg_path = ''/'', pg_title = ''Welcome'',
     pg_type = ''landing'', pg_forms = [], pg_buttons = [], pg_nav_links = [],
     pg_requires_auth = Some False\<rparr>"

definition login_and_landing_map :: AppMap where
  \<comment> \<open>what the explorer returns for a site with a landing page and a login page\<close>
  "login_and_landing_map = \<lparr>am_base_url = ''https://host'',
     am_modules = [(''auth'', \<lparr>md_pages = [login_page], md_requires_auth = Some False\<rparr>),
                   (''dashboard'', \<lparr>md_pages = [landing_page], md_requires_auth = Some False\<rparr>)]\<rparr>"

definition dashboard_page_ex :: Page where
  "dashboard_page_ex = \<lparr>pg_url = ''https://host/dashboard'', pg_path = ''/dashboard'',
     pg_title = ''Dashboard'', pg_type = ''dashboard'', pg_forms = [], pg_buttons = [],
     pg_nav_links = [], pg_requires_auth = Some True\<rparr>"

definition dashboard_only_map :: AppMap where
  \<comment> \<open>what the explorer returns for a site whose only page is \<open>/dashboard\<close>\<close>
  "dashboard_only_map = \<lparr>am_base_url = ''https://host/dashboard'',
     am_modules = [(''dashboard'', \<lparr>md_pages = [dashboard_page_ex], md_requires_auth = Some True\<rparr>)]\<rparr>"


section \<open>The explorer: selectors of form inputs (testbounty\_agent/src/agents/explorer.py)\<close>

datatype py_error = IndexError | ValueError

fun join :: "string \<Rightarrow> string list \<Rightarrow> string" where
  \<comment> \<open>\<open>sep.join(xs)\<close>\<close>
  "join sep [] = []"
| "join sep [x] = x"
| "join sep (x # y # ys) = x @ sep @ join sep (y # ys)"







section \<open>The batch executor (test\_sprite\_agent/src/mcp\_server/server.py)\<close>

text \<open>
  \<open>testsprite_generate_code_and_execute\<close> runs every scenario of the merged plans in a
  subprocess of its own. What the world outside does is given with the call: whether
  creating the directories and writing the first progress file raises; for every
  scenario, whether generating and writing its test file raises, and what its subprocess
  does: it ends and its output is read, it exceeds the time limit, or starting it raises.
  The subprocess is inside a \<open>try\<close>; the directories, the progress file and the test file
  are not, so a raise there leaves the tool without an output.
\<close>

datatype 'a call = Raised string | Returned 'a

datatype batch_error = SetupError string | WriteError string

datatype subprocess_outcome = Finished string | TimeoutExpired | Failed string

record BatchScenario =
  bs_id :: "string option"
  bs_name :: "string option"

definition test_id_of :: "nat \<Rightarrow> BatchScenario \<Rightarrow> string" where
  \<comment> \<open>\<open>scenario.get("id", f"test_{i}")\<close>\<close>
  "test_id_of i sc = (case bs_id sc of None \<Rightarrow> ''test_'' @ str_nat i | Some x \<Rightarrow> x)"

definition test_name_of :: "BatchScenario \<Rightarrow> string" where
  "test_name_of sc = (case bs_name sc of None \<Rightarrow> ''Unknown Test'' | Some x \<Rightarrow> x)"

fun verdict :: "subprocess_outcome \<Rightarrow> string" where
  "verdict (Finished stdout) =
     (if py_in ''[PASSED]'' stdout then ''passed''
      else if py_in ''[FAILED]'' stdout then ''failed''
      else if py_in ''[SKIPPED]'' stdout then ''skipped''
      else ''passed'')"
| "verdict TimeoutExpired = ''failed''"
| "verdict (Failed e) = ''failed''"

definition banner :: "string \<Rightarrow> string \<Rightarrow> string" where
  "banner test_id test_name = [CHR 0x0A] @ ''--- '' @ test_id @ '': '' @ test_name @ '' ---'' @ [CHR 0x0A]"

fun transcript :: "string \<Rightarrow> string \<Rightarrow> subprocess_outcome \<Rightarrow> string" where
  \<comment> \<open>the entry appended to \<open>all_stdout\<close>\<close>
  "transcript test_id test_name (Finished stdout) = banner test_id test_name @ stdout"
| "transcript test_id test_name TimeoutExpired =
     banner test_id test_name @ ''[TIMEOUT] Test exceeded time limit''"
| "transcript test_id test_name (Failed e) = banner test_id test_name @ ''[ERROR] '' @ e"

record Batch =
  all_stdout :: "string list"
  all_results :: "(string \<times> string) list"

record Job =
  job_scenario :: BatchScenario
  job_write :: "unit call"
  job_outcome :: subprocess_outcome

definition write_test_file :: "string \<Rightarrow> unit call \<Rightarrow> unit call" where
  \<comment> \<open>\<open>open(test_dir / f"test_{test_id}.py", "w")\<close> and the write: the tool creates no
      directory \<open>test_...\<close>, so an id with a path separator names a file in a directory that
      is not there; an id with a null character is no file name; otherwise the world
      decides\<close>
  "write_test_file test_id w =
     (if CHR ''/'' \<in> set test_id then Raised ''No such file or directory''
      else if CHR 0x00 \<in> set test_id then Raised ''embedded null byte''
      else w)"


definition run_one :: "nat \<times> Job \<Rightarrow> Batch \<Rightarrow> Batch" where
  \<comment> \<open>the body of the loop over \<open>enumerate(all_scenarios)\<close> from the subprocess on;
      \<open>all_results\<close> is a dictionary keyed by test id, in insertion order\<close>
  "run_one ij b =
     (case ij of (i, job) \<Rightarrow>
        (let test_id = test_id_of i (job_scenario job); test_name = test_name_of (job_scenario job)
         in \<lparr>all_stdout = all_stdout b @ [transcript test_id test_name (job_outcome job)],
             all_results = AList.update test_id (verdict (job_outcome job)) (all_results b)\<rparr>))"

fun run_jobs :: "(nat \<times> Job) list \<Rightarrow> Batch \<Rightarrow> batch_error + Batch" where
  \<comment> \<open>the loop over \<open>enumerate(all_scenarios)\<close>: a test file that cannot be written ends
      the tool with the exception\<close>
  "run_jobs [] b = Inr b"
| "run_jobs (ij # rest) b =
     (case write_test_file (test_id_of (fst ij) (job_scenario (snd ij))) (job_write (snd ij)) of
        Raised e \<Rightarrow> Inl (WriteError (test_id_of (fst ij) (job_scenario (snd ij))))
      | Returned u \<Rightarrow> run_jobs rest (run_one ij b))"

record ExecOutput =
  out_exit_code :: int
  out_stdout :: string
  out_stderr :: string
  out_tests_executed :: nat
  out_passed :: nat
  out_failed :: nat
  out_results :: "(string \<times> string) list"

definition last_chars :: "nat \<Rightarrow> string \<Rightarrow> string" where
  \<comment> \<open>\<open>s[-n:]\<close> for positive \<open>n\<close>\<close>
  "last_chars n s = drop (length s - n) s"

definition build_output :: "nat \<Rightarrow> Batch \<Rightarrow> ExecOutput" where
  "build_output n b =
     (let n_passed = length (filter (\<lambda>kr. snd kr = ''passed'') (all_results b));
          n_failed = length (filter (\<lambda>kr. snd kr = ''failed'') (all_results b))
      in \<lparr>out_exit_code = (if n_failed = 0 then 0 else 1),
          out_stdout = last_chars 3000 (join [CHR 0x0A] (all_stdout b)),
          out_stderr = [],
          out_tests_executed = n,
          out_passed = n_passed,
          out_failed = n_failed,
          out_results = all_results b\<rparr>)"

definition generate_code_and_execute :: "unit call \<Rightarrow> Job list \<Rightarrow> batch_error + ExecOutput" where
  "generate_code_and_execute setup jobs =
     (case setup of
        Raised e \<Rightarrow> Inl (SetupError e)
      | Returned u \<Rightarrow>
          (case run_jobs (zip [0 ..< length jobs] jobs) \<lparr>all_stdout = [], all_results = []\<rparr> of
             Inl e \<Rightarrow> Inl e
           | Inr b \<Rightarrow> Inr (build_output (length jobs) b)))"



definition separator_id_batch :: "Job list" where
  "separator_id_batch =
     [\<lparr>job_scenario = \<lparr>bs_id = Some ''api/users'', bs_name = Some ''List users''\<rparr>,
       job_write = Returned (), job_outcome = Finished ''[PASSED] api/users: Test completed''\<rparr>]"


section \<open>The orchestrator (test\_sprite\_agent/src/agents/orchestrator.py, nodes.py)\<close>

text \<open>
  A node of the graph awaits one tool and turns what the tool returns, or the exception it
  raises, into a state delta; the runtime merges the delta into the state: the lists
  \<open>error_log\<close> and \<open>steps_completed\<close> are concatenated, every other key is overwritten. A
  key that the state may lack is an \<open>option\<close>.
\<close>

record TestingState =
  project_path :: "string option"
  test_results :: "ExecOutput option"
  report_path :: "string option"
  error_log :: "string list"
  steps_completed :: "string list"
  retries :: "int option"
  max_retries :: "int option"

text \<open>
  What the world outside the graph does: the outcome of the \<open>i\<close>-th run of the test batch,
  whether the file \<open>test_generated_001.py\<close> exists at the \<open>i\<close>-th repair, the outcome of the
  repair by the language model, and the outcome of rendering the report.
\<close>

record World =
  w_execute :: "nat \<Rightarrow> ExecOutput call"
  w_test_file_exists :: "nat \<Rightarrow> bool"
  w_llm_fix :: "nat \<Rightarrow> string call"
  w_report :: "string call"

record FixResult =
  fx_success :: bool
  fx_error :: "string option"

definition testsprite_fix_test_code :: "World \<Rightarrow> nat \<Rightarrow> FixResult" where
  \<comment> \<open>the tool catches what reading, repairing and writing the file raise\<close>
  "testsprite_fix_test_code w i =
     (if \<not> w_test_file_exists w i then \<lparr>fx_success = False, fx_error = Some ''Test file not found''\<rparr>
      else case w_llm_fix w i of
             Returned fixed_code \<Rightarrow> \<lparr>fx_success = True, fx_error = None\<rparr>
           | Raised e \<Rightarrow> \<lparr>fx_success = False, fx_error = Some e\<rparr>)"

definition retries_of :: "TestingState \<Rightarrow> int" where
  \<comment> \<open>\<open>state.get("retries", 0)\<close>\<close>
  "retries_of st = (case retries st of None \<Rightarrow> 0 | Some r \<Rightarrow> r)"

definition max_retries_of :: "TestingState \<Rightarrow> int" where
  \<comment> \<open>\<open>state.get("max_retries", 3)\<close>\<close>
  "max_retries_of st = (case max_retries st of None \<Rightarrow> 3 | Some r \<Rightarrow> r)"

definition key_error :: string where
  \<comment> \<open>\<open>str(KeyError('project_path'))\<close>\<close>
  "key_error = apostrophe @ ''project_path'' @ apostrophe"

definition execute_tests_node :: "World \<Rightarrow> nat \<Rightarrow> TestingState \<Rightarrow> TestingState" where
  "execute_tests_node w i st =
     (case project_path st of
        None \<Rightarrow> st\<lparr>error_log := error_log st @ [''Execution failed: '' @ key_error]\<rparr>
      | Some p \<Rightarrow>
          (case w_execute w i of
             Returned result \<Rightarrow>
               st\<lparr>test_results := Some result, steps_completed := steps_completed st @ [''execute'']\<rparr>
           | Raised e \<Rightarrow> st\<lparr>error_log := error_log st @ [''Execution failed: '' @ e]\<rparr>))"

definition fix_tests_node :: "World \<Rightarrow> nat \<Rightarrow> TestingState \<Rightarrow> TestingState" where
  "fix_tests_node w i st =
     (case project_path st of
        None \<Rightarrow> st\<lparr>error_log := error_log st @ [''Fix node failed: '' @ key_error]\<rparr>
      | Some p \<Rightarrow>
          (let result = testsprite_fix_test_code w i
           in if fx_success result then
                st\<lparr>retries := Some (retries_of st + 1),
                   steps_completed := steps_completed st @ [''fix_tests'']\<rparr>
              else
                st\<lparr>retries := Some (retries_of st + 1),
                   error_log := error_log st @
                     [''Fix failed: '' @ (case fx_error result of None \<Rightarrow> ''None'' | Some e \<Rightarrow> e)]\<rparr>))"

definition report_node :: "World \<Rightarrow> TestingState \<Rightarrow> TestingState" where
  "report_node w st =
     (case project_path st of
        None \<Rightarrow> st\<lparr>error_log := error_log st @ [''Report generation failed: '' @ key_error]\<rparr>
      | Some p \<Rightarrow>
          (case w_report w of
             Returned html_path \<Rightarrow>
               st\<lparr>report_path := Some html_path, steps_completed := steps_completed st @ [''report'']\<rparr>
           | Raised e \<Rightarrow> st\<lparr>error_log := error_log st @ [''Report generation failed: '' @ e]\<rparr>))"

definition should_fix :: "TestingState \<Rightarrow> string" where
  "should_fix st =
     (let code = (case test_results st of None \<Rightarrow> 0 | Some res \<Rightarrow> out_exit_code res);
          tried = retries_of st;
          bound = max_retries_of st
      in if code \<noteq> 0 \<and> tried < bound then ''fix_tests'' else ''report'')"

text \<open>
  The graph from the node \<open>execute\<close> on: \<open>execute\<close>, the conditional edge \<open>should_fix\<close>, then
  \<open>fix_tests\<close> and \<open>execute\<close> again, or \<open>report\<close> and the end. The first argument bounds the
  number of rounds; \<open>None\<close> says that the graph has not reached its end within the bound. The
  result is the sequence of nodes run, as \<open>run_agent_task\<close> records it in the steps of the
  run, and the final state.
\<close>

fun run_from_execute ::
  "nat \<Rightarrow> World \<Rightarrow> nat \<Rightarrow> TestingState \<Rightarrow> (string list \<times> TestingState) option" where
  "run_from_execute 0 w i st = None"
| "run_from_execute (Suc fuel) w i st =
     (let st1 = execute_tests_node w i st
      in if should_fix st1 = ''fix_tests'' then
           (case run_from_execute fuel w (Suc i) (fix_tests_node w i st1) of
              None \<Rightarrow> None
            | Some (nodes, st') \<Rightarrow> Some (''execute'' # ''fix_tests'' # nodes, st'))
         else Some ([''execute'', ''report''], report_node w st1))"

fun rounds :: "nat \<Rightarrow> string list" where
  \<comment> \<open>the nodes of a run that repairs \<open>n\<close> times\<close>
  "rounds 0 = [''execute'', ''report'']"
| "rounds (Suc n) = ''execute'' # ''fix_tests'' # rounds n"

definition always_fails :: "World \<Rightarrow> bool" where
  \<comment> \<open>every run of the batch returns a composite exit code that is not zero\<close>
  "always_fails w = (\<forall>i. \<exists>r. w_execute w i = Returned r \<and> out_exit_code r \<noteq> 0)"

definition run_status :: "(string list \<times> TestingState) option \<Rightarrow> string" where
  \<comment> \<open>\<open>run_agent_task\<close>: the status is \<open>completed\<close> when the stream of the graph ends, and
      \<open>failed\<close> when it raises, as the runtime does at its step limit\<close>
  "run_status r = (case r of None \<Rightarrow> ''failed'' | Some _ \<Rightarrow> ''completed'')"

definition initial_state :: "string \<Rightarrow> TestingState" where
  \<comment> \<open>the state that \<open>run_agent_task\<close> starts the graph with, brought to \<open>execute\<close>\<close>
  "initial_state path = \<lparr>project_path = Some path, test_results = None, report_path = None,
     error_log = [], steps_completed = [], retries = None, max_retries = None\<rparr>"

definition failing_output :: ExecOutput where
  "failing_output = \<lparr>out_exit_code = 1,
     out_stdout = ''[FAILED] TC_FE_001: Could not find element'', out_stderr = [],
     out_tests_executed = 1, out_passed = 0, out_failed = 1,
     out_results = [(''TC_FE_001'', ''failed'')]\<rparr>"

definition failing_world :: World where
  \<comment> \<open>every batch fails, and there is no file \<open>test_generated_001.py\<close> to repair\<close>
  "failing_world = \<lparr>w_execute = (\<lambda>i. Returned failing_output), w_test_file_exists = (\<lambda>i. False),
     w_llm_fix = (\<lambda>i. Raised ''no provider''), w_report = Returned ''reports/report.html''\<rparr>"


section \<open>The explorer: the crawl (testbounty\_agent/src/agents/explorer.py)\<close>

text \<open>
  \<open>urlparse\<close> and \<open>urljoin\<close> belong to the Python library and are parameters of the model:
  the network location and the path of a URL, and the resolution of a link against a URL.
  \<open>None\<close> stands for the \<open>ValueError\<close> that the library raises on a malformed URL.
\<close>

record UrlLib =
  netloc :: "string \<Rightarrow> string option"
  path :: "string \<Rightarrow> string"
  urljoin :: "string \<Rightarrow> string \<Rightarrow> string option"

text \<open>
  What the browser shows at a URL: \<open>goto\<close> raises, or returns no response, or the page
  loads. For a loaded page, the content that the extraction reads (\<open>None\<close> when waiting or
  extracting raises) and the \<open>href\<close> attributes of its anchors (\<open>None\<close> when reading them
  raises). Of forms, buttons and links the fields that the planner reads are kept.
\<close>

record PageContent =
  pc_title :: string
  pc_forms :: "Form list"
  pc_buttons :: "Button list"
  pc_nav_links :: "NavLink list"

datatype visit = GotoRaised | NoResponse | Loaded "PageContent option" "string list option"

definition any_in :: "string list \<Rightarrow> string \<Rightarrow> bool" where
  \<comment> \<open>\<open>any(x in s for x in xs)\<close>\<close>
  "any_in xs s = list_ex (\<lambda>x. py_in x s) xs"

definition detect_page_type :: "UrlLib \<Rightarrow> string \<Rightarrow> string \<Rightarrow> Form list \<Rightarrow> string" where
  "detect_page_type lib url ttl forms =
     (let p = lower (path lib url); title_lower = lower ttl
      in if any_in [''/login'', ''/signin'', ''/sign-in'', ''/auth''] p then ''login''
         else if any_in [''/register'', ''/signup'', ''/sign-up''] p then ''register''
         else if any_in [''/forgot'', ''/reset'', ''/password''] p then ''password_reset''
         else if any_in [''/dashboard'', ''/home'', ''/overview''] p then ''dashboard''
         else if p = ''/'' \<or> p = [] then ''landing''
         else if any_in [''/settings'', ''/preferences'', ''/config''] p then ''settings''
         else if any_in [''/profile'', ''/account'', ''/user''] p then ''profile''
         else if any_in [''/create'', ''/new'', ''/add''] p then ''create''
         else if any_in [''/edit'', ''/update'', ''/modify''] p then ''edit''
         else if any_in [''/list'', ''/all'', ''/index''] p then ''list''
         else if any_in [''/view'', ''/detail'', ''/show''] p then ''detail''
         else
           (let form_fields = concat (map (\<lambda>form. map (\<lambda>f. lower (fld_name f)) (frm_fields form)) forms)
            in if list_ex (\<lambda>x. x \<in> set form_fields) [''email'', ''password'', ''username''] then
                 (if py_in ''register'' title_lower \<or> py_in ''sign up'' title_lower then ''register''
                  else ''login'')
               else ''general''))"

definition requires_auth :: "UrlLib \<Rightarrow> string \<Rightarrow> bool" where
  "requires_auth lib url =
     (let p = lower (path lib url)
      in if any_in [''/login'', ''/signin'', ''/register'', ''/signup'', ''/forgot'', ''/reset'',
                    ''/about'', ''/contact'', ''/pricing''] p \<or> p = ''/'' then False
         else if any_in [''/dashboard'', ''/settings'', ''/profile'', ''/account'', ''/admin'',
                         ''/create'', ''/edit''] p then True
         else False)"

definition extract_page_info :: "UrlLib \<Rightarrow> PageContent \<Rightarrow> string \<Rightarrow> Page" where
  "extract_page_info lib c url =
     \<lparr>pg_url = url,
      pg_path = truthy_or (path lib url) ''/'',
      pg_title = pc_title c,
      pg_type = detect_page_type lib url (pc_title c) (pc_forms c),
      pg_forms = pc_forms c,
      pg_buttons = pc_buttons c,
      pg_nav_links = pc_nav_links c,
      pg_requires_auth = Some (requires_auth lib url)\<rparr>"

definition is_auth_page :: "Page \<Rightarrow> bool" where
  "is_auth_page page_info = (pg_type page_info \<in> set [''login'', ''register'', ''password_reset''])"

definition extract_links :: "string list \<Rightarrow> string list" where
  "extract_links hrefs =
     filter (\<lambda>href. href \<noteq> [] \<and> \<not> startswith href ''#'' \<and> \<not> startswith href ''javascript:'') hrefs"

record Explorer =
  ex_base_url :: string
  ex_domain :: string
  visited_urls :: "string list"
  ex_pages :: "Page list"
  ex_auth_pages :: "string list"

definition add_page :: "Page \<Rightarrow> string \<Rightarrow> Explorer \<Rightarrow> Explorer" where
  \<comment> \<open>\<open>self.pages.append(page_info)\<close>, and \<open>self.auth_pages.append(url)\<close> for an
      authentication page\<close>
  "add_page page_info url ex =
     ex\<lparr>ex_pages := ex_pages ex @ [page_info],
        ex_auth_pages := (if is_auth_page page_info then ex_auth_pages ex @ [url]
                          else ex_auth_pages ex)\<rparr>"

text \<open>
  \<open>_explore_page\<close> (and \<open>_explore_page_sync\<close>, which is the same function over the
  synchronous driver). \<open>visited_urls\<close> is a set in the source; here it is the list of its
  elements, latest first, each added once. The first argument bounds the depth of the
  recursion, and \<open>None\<close> says that the bound was reached. The flag returned with the state
  says that the call raised: \<open>urlparse\<close> is called before the \<open>try\<close>. Inside the \<open>try\<close> of the
  caller a raise ends the loop over the links.
\<close>

fun explore_page ::
  "nat \<Rightarrow> UrlLib \<Rightarrow> (string \<Rightarrow> visit) \<Rightarrow> int \<Rightarrow> string \<Rightarrow> Explorer \<Rightarrow> (bool \<times> Explorer) option"
and explore_links ::
  "nat \<Rightarrow> UrlLib \<Rightarrow> (string \<Rightarrow> visit) \<Rightarrow> int \<Rightarrow> string \<Rightarrow> string list \<Rightarrow> Explorer \<Rightarrow> Explorer option"
where
  "explore_page 0 lib web max_pages url ex = None"
| "explore_page (Suc n) lib web max_pages url ex =
     (if url \<in> set (visited_urls ex) \<or> int (length (visited_urls ex)) \<ge> max_pages then Some (False, ex)
      else case netloc lib url of
        None \<Rightarrow> Some (True, ex)
      | Some host \<Rightarrow>
          if host \<noteq> ex_domain ex then Some (False, ex)
          else
            (let ex1 = ex\<lparr>visited_urls := url # visited_urls ex\<rparr>
             in case web url of
                  GotoRaised \<Rightarrow> Some (False, ex1)
                | NoResponse \<Rightarrow> Some (False, ex1)
                | Loaded None hrefs \<Rightarrow> Some (False, ex1)
                | Loaded (Some content) hrefs \<Rightarrow>
                    (let ex2 = add_page (extract_page_info lib content url) url ex1
                     in case hrefs of
                          None \<Rightarrow> Some (False, ex2)
                        | Some hs \<Rightarrow>
                            (case explore_links n lib web max_pages url (extract_links hs) ex2 of
                               None \<Rightarrow> None
                             | Some ex3 \<Rightarrow> Some (False, ex3)))))"
| "explore_links n lib web max_pages url [] ex = Some ex"
| "explore_links n lib web max_pages url (link # links) ex =
     (case urljoin lib url link of
        None \<Rightarrow> Some ex
      | Some full_url \<Rightarrow>
          if full_url \<in> set (visited_urls ex) then explore_links n lib web max_pages url links ex
          else
            (case explore_page n lib web max_pages full_url ex of
               None \<Rightarrow> None
             | Some (True, ex') \<Rightarrow> Some ex'
             | Some (False, ex') \<Rightarrow> explore_links n lib web max_pages url links ex'))"

record ExplorerModule =
  xm_name :: string
  xm_pages :: "Page list"
  xm_requires_auth :: bool
  xm_page_count :: nat

definition module_mapping :: "(string \<times> string list) list" where
  "module_mapping =
     [(''auth'', [''login'', ''register'', ''password_reset'']),
      (''dashboard'', [''dashboard'', ''landing'']),
      (''profile'', [''profile'', ''settings'']),
      (''crud'', [''create'', ''edit'', ''list'', ''detail'']),
      (''general'', [''general''])]"

definition group_into_modules :: "Page list \<Rightarrow> (string \<times> ExplorerModule) list" where
  "group_into_modules pages =
     concat (map (\<lambda>(module_name, page_types).
        (let module_pages = filter (\<lambda>p. pg_type p \<in> set page_types) pages
         in if module_pages \<noteq> [] then
              [(module_name,
                \<lparr>xm_name = title module_name, xm_pages = module_pages,
                 xm_requires_auth = list_ex (\<lambda>p. pg_requires_auth p = Some True) module_pages,
                 xm_page_count = length module_pages\<rparr>)]
            else [])) module_mapping)"

record ExploredMap =
  em_base_url :: string
  em_total_pages :: nat
  em_pages :: "Page list"
  em_modules :: "(string \<times> ExplorerModule) list"
  em_auth_pages :: "string list"

definition rstrip_slash :: "string \<Rightarrow> string" where
  \<comment> \<open>\<open>base_url.rstrip('/')\<close>\<close>
  "rstrip_slash s = rev (dropWhile (\<lambda>c. c = CHR ''/'') (rev s))"

definition Explorer_init :: "string \<Rightarrow> string \<Rightarrow> Explorer" where
  "Explorer_init base_url host = \<lparr>ex_base_url = rstrip_slash base_url, ex_domain = host,
     visited_urls = [], ex_pages = [], ex_auth_pages = []\<rparr>"

definition crawl :: "UrlLib \<Rightarrow> (string \<Rightarrow> visit) \<Rightarrow> string \<Rightarrow> int \<Rightarrow> (bool \<times> Explorer) option" where
  \<comment> \<open>the constructor and the call \<open>_explore_page(page, self.base_url, max_pages)\<close>; a depth
      of one more than \<open>max_pages\<close> is always enough\<close>
  "crawl lib web base_url max_pages =
     (case netloc lib base_url of
        None \<Rightarrow> Some (True, Explorer_init base_url [])
      | Some host \<Rightarrow>
          explore_page (Suc (nat max_pages)) lib web max_pages (rstrip_slash base_url)
            (Explorer_init base_url host))"

definition explore :: "UrlLib \<Rightarrow> (string \<Rightarrow> visit) \<Rightarrow> string \<Rightarrow> int \<Rightarrow> (py_error + ExploredMap) option" where
  "explore lib web base_url max_pages =
     (case crawl lib web base_url max_pages of
        None \<Rightarrow> None
      | Some (True, ex) \<Rightarrow> Some (Inl ValueError)
      | Some (False, ex) \<Rightarrow>
          Some (Inr \<lparr>em_base_url = ex_base_url ex, em_total_pages = length (ex_pages ex),
                     em_pages = ex_pages ex, em_modules = group_into_modules (ex_pages ex),
                     em_auth_pages = ex_auth_pages ex\<rparr>))"

definition crawl_inv :: "UrlLib \<Rightarrow> Explorer \<Rightarrow> bool" where
  \<comment> \<open>every URL visited or recorded has the network location of the base URL\<close>
  "crawl_inv lib ex =
     ((\<forall>u \<in> set (visited_urls ex). netloc lib u = Some (ex_domain ex)) \<and>
      (\<forall>p \<in> set (ex_pages ex). netloc lib (pg_url p) = Some (ex_domain ex)) \<and>
      (\<forall>u \<in> set (ex_auth_pages ex). netloc lib u = Some (ex_domain ex)))"

definition room :: "int \<Rightarrow> Explorer \<Rightarrow> nat" where
  \<comment> \<open>how many more URLs may be visited\<close>
  "room max_pages ex = nat (max_pages - int (length (visited_urls ex)))"

definition page_safe :: "nat \<Rightarrow> UrlLib \<Rightarrow> (string \<Rightarrow> visit) \<Rightarrow> int \<Rightarrow> bool" where
  "page_safe n lib web max_pages =
     (\<forall>url ex flag ex'. explore_page n lib web max_pages url ex = Some (flag, ex') \<longrightarrow>
        crawl_inv lib ex \<longrightarrow> crawl_inv lib ex' \<and> ex_domain ex' = ex_domain ex)"

definition links_safe :: "nat \<Rightarrow> UrlLib \<Rightarrow> (string \<Rightarrow> visit) \<Rightarrow> int \<Rightarrow> bool" where
  "links_safe n lib web max_pages =
     (\<forall>url links ex ex'. explore_links n lib web max_pages url links ex = Some ex' \<longrightarrow>
        crawl_inv lib ex \<longrightarrow> crawl_inv lib ex' \<and> ex_domain ex' = ex_domain ex)"

definition page_returns :: "nat \<Rightarrow> UrlLib \<Rightarrow> (string \<Rightarrow> visit) \<Rightarrow> int \<Rightarrow> bool" where
  "page_returns n lib web max_pages =
     (\<forall>url ex. room max_pages ex < n \<longrightarrow>
        (\<exists>flag ex'. explore_page n lib web max_pages url ex = Some (flag, ex') \<and>
                    length (visited_urls ex) \<le> length (visited_urls ex')))"

definition links_return :: "nat \<Rightarrow> UrlLib \<Rightarrow> (string \<Rightarrow> visit) \<Rightarrow> int \<Rightarrow> bool" where
  "links_return n lib web max_pages =
     (\<forall>url links ex. room max_pages ex < n \<longrightarrow>
        (\<exists>ex'. explore_links n lib web max_pages url links ex = Some ex' \<and>
               length (visited_urls ex) \<le> length (visited_urls ex')))"

definition same_host :: "UrlLib \<Rightarrow> string \<Rightarrow> string \<Rightarrow> bool" where
  \<comment> \<open>the URL has a network location and it is that of the base URL\<close>
  "same_host lib base_url url = (netloc lib url \<noteq> None \<and> netloc lib url = netloc lib base_url)"

subsection \<open>An instance of the URL functions and an example site\<close>

definition after_scheme :: "string \<Rightarrow> string option" where
  \<comment> \<open>the part of an \<open>http\<close> or \<open>https\<close> URL after the two slashes\<close>
  "after_scheme u =
     (if startswith u ''https://'' then Some (drop 8 u)
      else if startswith u ''http://'' then Some (drop 7 u)
      else None)"

definition url_delim :: "char \<Rightarrow> bool" where
  "url_delim c = (c \<in> set ''/?#'')"

definition demo_netloc :: "string \<Rightarrow> string option" where
  "demo_netloc u = (case after_scheme u of None \<Rightarrow> Some [] | Some r \<Rightarrow> Some (takeWhile (\<lambda>c. \<not> url_delim c) r))"

definition demo_path :: "string \<Rightarrow> string" where
  "demo_path u =
     (case after_scheme u of None \<Rightarrow> takeWhile (\<lambda>c. c \<notin> set ''?#'') u
      | Some r \<Rightarrow> takeWhile (\<lambda>c. c \<notin> set ''?#'') (dropWhile (\<lambda>c. \<not> url_delim c) r))"

definition demo_urljoin :: "string \<Rightarrow> string \<Rightarrow> string option" where
  \<comment> \<open>absolute links, and links that start at the root of the site\<close>
  "demo_urljoin base link =
     (if after_scheme link \<noteq> None then Some link
      else case after_scheme base of
             None \<Rightarrow> Some link
           | Some r \<Rightarrow> Some (take (length base - length r) base @ takeWhile (\<lambda>c. \<not> url_delim c) r @ link))"

definition demo_lib :: UrlLib where
  "demo_lib = \<lparr>netloc = demo_netloc, path = demo_path, urljoin = demo_urljoin\<rparr>"

definition demo_site :: "string \<Rightarrow> visit" where
  \<comment> \<open>the landing page links to \<open>/a\<close> on the same host and to a page on another host\<close>
  "demo_site url =
     (if url = ''https://host'' then
        Loaded (Some \<lparr>pc_title = ''Home'', pc_forms = [], pc_buttons = [], pc_nav_links = []\<rparr>)
               (Some [''https://host/a'', ''https://other/b'', ''#top''])
      else if url = ''https://host/a'' then
        Loaded (Some \<lparr>pc_title = ''A'', pc_forms = [], pc_buttons = [], pc_nav_links = []\<rparr>)
               (Some [''https://host'', ''javascript:void(0)''])
      else if url = ''https://other/b'' then
        Loaded (Some \<lparr>pc_title = ''B'', pc_forms = [], pc_buttons = [], pc_nav_links = []\<rparr>) (Some [])
      else GotoRaised)"


section \<open>The scenario executor (testbounty\_agent/src/api\_server.py)\<close>

text \<open>
  The browser and the disk are a state of some type \<open>'w\<close>; an element handle has some type
  \<open>'e\<close>. A call of the driver returns a value or raises, Playwright's \<open>TimeoutError\<close> or
  another exception, and leaves a new state. The driver is a parameter of the model.
\<close>

datatype 'a outcome = Ok 'a | PlaywrightTimeout string | Error string

record ('w, 'e) Driver =
  pw_launch :: "'w \<Rightarrow> unit outcome \<times> 'w"
  pw_new_page :: "'w \<Rightarrow> unit outcome \<times> 'w"
  pw_close_page :: "'w \<Rightarrow> unit outcome \<times> 'w"
  pw_close_browser :: "'w \<Rightarrow> unit outcome \<times> 'w"
  pw_goto :: "string \<Rightarrow> 'w \<Rightarrow> unit outcome \<times> 'w"
  pw_wait_for_selector :: "string \<Rightarrow> 'w \<Rightarrow> 'e option outcome \<times> 'w"
  pw_fill :: "'e \<Rightarrow> string \<Rightarrow> 'w \<Rightarrow> unit outcome \<times> 'w"
  pw_click :: "'e \<Rightarrow> 'w \<Rightarrow> unit outcome \<times> 'w"
  pw_wait_for_load_state :: "'w \<Rightarrow> unit outcome \<times> 'w"
  pw_wait_for_timeout :: "'w \<Rightarrow> unit outcome \<times> 'w"
  pw_title :: "'w \<Rightarrow> string outcome \<times> 'w"
  pw_query_selector :: "string \<Rightarrow> 'w \<Rightarrow> 'e option outcome \<times> 'w"
  pw_is_visible :: "'e \<Rightarrow> 'w \<Rightarrow> bool outcome \<times> 'w"
  save_runs :: "'w \<Rightarrow> unit outcome \<times> 'w"

fun split_comma :: "string \<Rightarrow> string \<Rightarrow> string list" where
  \<comment> \<open>\<open>target.split(", ")\<close>; the first argument is the piece being read\<close>
  "split_comma cur [] = [cur]"
| "split_comma cur [c] = [cur @ [c]]"
| "split_comma cur (c # d # cs) =
     (if c = CHR '','' \<and> d = CHR '' '' then cur # split_comma [] cs
      else split_comma (cur @ [c]) (d # cs))"

fun try_fill :: "('w, 'e) Driver \<Rightarrow> string list \<Rightarrow> string \<Rightarrow> 'w \<Rightarrow> bool \<times> 'w" where
  \<comment> \<open>the loop over the selectors of a \<open>fill\<close> step; the bare \<open>except\<close> goes on to the next
      selector\<close>
  "try_fill d [] v w = (False, w)"
| "try_fill d (selector # selectors) v w =
     (case pw_wait_for_selector d (strip selector) w of
        (Ok (Some elem), w1) \<Rightarrow>
          (case pw_fill d elem v w1 of
             (Ok u, w2) \<Rightarrow> (True, w2)
           | (PlaywrightTimeout e, w2) \<Rightarrow> try_fill d selectors v w2
           | (Error e, w2) \<Rightarrow> try_fill d selectors v w2)
      | (Ok None, w1) \<Rightarrow> try_fill d selectors v w1
      | (PlaywrightTimeout e, w1) \<Rightarrow> try_fill d selectors v w1
      | (Error e, w1) \<Rightarrow> try_fill d selectors v w1)"

fun try_click :: "('w, 'e) Driver \<Rightarrow> string list \<Rightarrow> 'w \<Rightarrow> bool \<times> 'w" where
  "try_click d [] w = (False, w)"
| "try_click d (selector # selectors) w =
     (case pw_wait_for_selector d (strip selector) w of
        (Ok (Some elem), w1) \<Rightarrow>
          (case pw_click d elem w1 of
             (Ok u, w2) \<Rightarrow> (True, w2)
           | (PlaywrightTimeout e, w2) \<Rightarrow> try_click d selectors w2
           | (Error e, w2) \<Rightarrow> try_click d selectors w2)
      | (Ok None, w1) \<Rightarrow> try_click d selectors w1
      | (PlaywrightTimeout e, w1) \<Rightarrow> try_click d selectors w1
      | (Error e, w1) \<Rightarrow> try_click d selectors w1)"

fun find_error :: "('w, 'e) Driver \<Rightarrow> string list \<Rightarrow> 'w \<Rightarrow> bool \<times> 'w" where
  \<comment> \<open>the loop over \<open>error_selectors\<close>; it computes \<open>found\<close>\<close>
  "find_error d [] w = (False, w)"
| "find_error d (sel # sels) w =
     (case pw_query_selector d sel w of
        (Ok (Some elem), w1) \<Rightarrow>
          (case pw_is_visible d elem w1 of
             (Ok True, w2) \<Rightarrow> (True, w2)
           | (Ok False, w2) \<Rightarrow> find_error d sels w2
           | (PlaywrightTimeout e, w2) \<Rightarrow> find_error d sels w2
           | (Error e, w2) \<Rightarrow> find_error d sels w2)
      | (Ok None, w1) \<Rightarrow> find_error d sels w1
      | (PlaywrightTimeout e, w1) \<Rightarrow> find_error d sels w1
      | (Error e, w1) \<Rightarrow> find_error d sels w1)"

definition error_selectors :: "string list" where
  "error_selectors = [''.error'', ''.alert-danger'', ''[role='alert']'', ''.text-red'', ''.text-danger'']"

definition do_assert :: "('w, 'e) Driver \<Rightarrow> string \<Rightarrow> 'w \<Rightarrow> unit outcome \<times> 'w" where
  \<comment> \<open>the branch \<open>action == "assert"\<close>: \<open>page_loaded\<close> asserts that the title is not empty,
      \<open>url_changed\<close> passes, \<open>error_message_visible\<close> looks for an error element and goes on
      whatever it finds, and no other target has a branch\<close>
  "do_assert d target w =
     (if target = ''page_loaded'' then
        (case pw_title d w of
           (Ok t, w1) \<Rightarrow> if t \<noteq> [] then (Ok (), w1) else (Error ''Page did not load'', w1)
         | (PlaywrightTimeout e, w1) \<Rightarrow> (PlaywrightTimeout e, w1)
         | (Error e, w1) \<Rightarrow> (Error e, w1))
      else if target = ''url_changed'' then (Ok (), w)
      else if target = ''error_message_visible'' then (Ok (), snd (find_error d error_selectors w))
      else (Ok (), w))"

definition do_step :: "('w, 'e) Driver \<Rightarrow> string \<Rightarrow> TestStep \<Rightarrow> 'w \<Rightarrow> unit outcome \<times> 'w" where
  \<comment> \<open>one round of the loop over the steps, up to the append to \<open>steps_completed\<close>\<close>
  "do_step d base_url step w =
     (let action = st_action step; target = st_target step; v = st_value step
      in if action = ''navigate'' then
           pw_goto d (if startswith target ''http'' then target else base_url @ target) w
         else if action = ''fill'' then
           (case try_fill d (split_comma [] target) (case v of None \<Rightarrow> [] | Some x \<Rightarrow> x) w of
              (True, w1) \<Rightarrow> (Ok (), w1)
            | (False, w1) \<Rightarrow> (Error (''Could not find element: '' @ target), w1))
         else if action = ''click'' then
           (case try_click d (split_comma [] target) w of
              (True, w1) \<Rightarrow> (Ok (), w1)
            | (False, w1) \<Rightarrow> (Error (''Could not click element: '' @ target), w1))
         else if action = ''wait'' then
           (if target = ''navigation'' then pw_wait_for_load_state d w else pw_wait_for_timeout d w)
         else if action = ''assert'' then do_assert d target w
         else (Ok (), w))"

record ScenarioResult =
  sr_id :: "string option"
  sr_name :: "string option"
  sr_status :: string
  sr_steps_completed :: "string list"
  sr_error :: "string option"

fun run_steps ::
  "('w, 'e) Driver \<Rightarrow> string \<Rightarrow> TestStep list \<Rightarrow> string list \<Rightarrow> 'w \<Rightarrow>
   (string \<times> string option \<times> string list) \<times> 'w" where
  \<comment> \<open>the loop over the steps with its two \<open>except\<close> clauses: the status, the error and the
      descriptions of the steps completed\<close>
  "run_steps d base_url [] completed w = ((''passed'', None, completed), w)"
| "run_steps d base_url (step # steps) completed w =
     (case do_step d base_url step w of
        (Ok u, w1) \<Rightarrow> run_steps d base_url steps (completed @ [st_description step]) w1
      | (PlaywrightTimeout e, w1) \<Rightarrow> ((''failed'', Some (''Timeout: '' @ e), completed), w1)
      | (Error e, w1) \<Rightarrow> ((''failed'', Some e, completed), w1))"

definition execute_scenario ::
  "('w, 'e) Driver \<Rightarrow> ScenarioDict \<Rightarrow> string \<Rightarrow> 'w \<Rightarrow> ScenarioResult \<times> 'w" where
  "execute_scenario d scenario base_url w =
     (case run_steps d base_url (d_steps scenario) [] w of
        ((status, err, completed), w1) \<Rightarrow>
          (\<lparr>sr_id = Some (d_id scenario), sr_name = Some (d_name scenario), sr_status = status,
            sr_steps_completed = completed, sr_error = err\<rparr>, w1))"

definition crashed :: "string \<Rightarrow> ScenarioResult" where
  \<comment> \<open>the dictionary \<open>{"status": "failed", "error": str(e)}\<close>\<close>
  "crashed e = \<lparr>sr_id = None, sr_name = None, sr_status = ''failed'', sr_steps_completed = [],
     sr_error = Some e\<rparr>"

definition find_auth_scenario :: "ScenarioDict list \<Rightarrow> ScenarioDict option" where
  \<comment> \<open>the scenario that the first non-empty \<open>depends_on\<close> of the list names, if it is in
      the list\<close>
  "find_auth_scenario scs =
     (case find (\<lambda>s. d_depends_on s \<noteq> None \<and> d_depends_on s \<noteq> Some []) scs of
        None \<Rightarrow> None
      | Some s \<Rightarrow> find (\<lambda>sc. Some (d_id sc) = d_depends_on s) scs)"

text \<open>
  The loop over the scenarios. The state of the loop is the dictionary \<open>results\<close>, in
  insertion order, and whether the run record already refers to it, which the first
  assignment \<open>RUNS[run_id]["results"] = results\<close> brings about. The first component of the
  result is the exception that leaves the loop, if any.
\<close>

fun run_each ::
  "('w, 'e) Driver \<Rightarrow> string \<Rightarrow> string option \<Rightarrow> ScenarioDict list \<Rightarrow>
   (string \<times> ScenarioResult) list \<Rightarrow> bool \<Rightarrow> 'w \<Rightarrow>
   (string option \<times> (string \<times> ScenarioResult) list \<times> bool) \<times> 'w" where
  "run_each d base_url auth_id [] res published w = ((None, res, published), w)"
| "run_each d base_url auth_id (scenario # rest) res published w =
     (if Some (d_id scenario) = auth_id then run_each d base_url auth_id rest res published w
      else case pw_new_page d w of
        (Ok u, w1) \<Rightarrow>
          (case execute_scenario d scenario base_url w1 of
             (result, w2) \<Rightarrow>
               (let res1 = AList.update (d_id scenario) result res;
                    saved = save_runs d w2;
                    res2 = (case fst saved of Ok u \<Rightarrow> res1
                            | PlaywrightTimeout e \<Rightarrow> AList.update (d_id scenario) (crashed e) res1
                            | Error e \<Rightarrow> AList.update (d_id scenario) (crashed e) res1)
                in case pw_close_page d (snd saved) of
                     (Ok u, w4) \<Rightarrow> run_each d base_url auth_id rest res2 True w4
                   | (PlaywrightTimeout e, w4) \<Rightarrow> ((Some e, res2, True), w4)
                   | (Error e, w4) \<Rightarrow> ((Some e, res2, True), w4)))
      | (PlaywrightTimeout e, w1) \<Rightarrow> ((Some e, res, published), w1)
      | (Error e, w1) \<Rightarrow> ((Some e, res, published), w1))"

record RunRecord =
  rr_status :: string
  rr_results :: "(string \<times> ScenarioResult) list"
  rr_error :: "string option"

definition run_failed :: "string \<Rightarrow> (string \<times> ScenarioResult) list \<Rightarrow> bool \<Rightarrow> RunRecord" where
  \<comment> \<open>the outer \<open>except\<close>: the record keeps the results it referred to, or the empty
      dictionary it was created with\<close>
  "run_failed e res published =
     \<lparr>rr_status = ''failed'', rr_results = (if published then res else []), rr_error = Some e\<rparr>"

definition run_auth_first ::
  "('w, 'e) Driver \<Rightarrow> string \<Rightarrow> ScenarioDict option \<Rightarrow> 'w \<Rightarrow>
   (string option \<times> (string \<times> ScenarioResult) list) \<times> 'w" where
  \<comment> \<open>\<open>if auth_scenario:\<close> run it first, on a page that stays open\<close>
  "run_auth_first d base_url auth_scenario w =
     (case auth_scenario of
        None \<Rightarrow> ((None, []), w)
      | Some a \<Rightarrow>
          (case pw_new_page d w of
             (Ok u, w1) \<Rightarrow>
               (case execute_scenario d a base_url w1 of
                  (result, w2) \<Rightarrow> ((None, [(d_id a, result)]), w2))
           | (PlaywrightTimeout e, w1) \<Rightarrow> ((Some e, []), w1)
           | (Error e, w1) \<Rightarrow> ((Some e, []), w1)))"

definition run_scenarios_task ::
  "('w, 'e) Driver \<Rightarrow> string \<Rightarrow> ScenarioDict list \<Rightarrow> 'w \<Rightarrow> RunRecord \<times> 'w" where
  "run_scenarios_task d base_url scs w =
     (case pw_launch d w of
        (Ok u, w1) \<Rightarrow>
          (let auth_scenario = find_auth_scenario scs
           in case run_auth_first d base_url auth_scenario w1 of
                ((Some e, res), w2) \<Rightarrow> (run_failed e res False, w2)
              | ((None, res), w2) \<Rightarrow>
                  (case run_each d base_url (map_option d_id auth_scenario) scs res False w2 of
                     ((Some e, res', published), w3) \<Rightarrow> (run_failed e res' published, w3)
                   | ((None, res', published), w3) \<Rightarrow>
                       (case pw_close_browser d w3 of
                          (Ok u, w4) \<Rightarrow>
                            (\<lparr>rr_status = ''completed'', rr_results = res', rr_error = None\<rparr>, w4)
                        | (PlaywrightTimeout e, w4) \<Rightarrow> (run_failed e res' published, w4)
                        | (Error e, w4) \<Rightarrow> (run_failed e res' published, w4))))
      | (PlaywrightTimeout e, w1) \<Rightarrow> (run_failed e [] False, w1)
      | (Error e, w1) \<Rightarrow> (run_failed e [] False, w1))"

definition status_ok :: "(string \<times> ScenarioResult) list \<Rightarrow> bool" where
  \<comment> \<open>every result is \<open>passed\<close> or \<open>failed\<close>\<close>
  "status_ok res = (\<forall>kr \<in> set res. sr_status (snd kr) = ''passed'' \<or> sr_status (snd kr) = ''failed'')"

definition saved_results ::
  "('w, 'e) Driver \<Rightarrow> ScenarioDict \<Rightarrow> ScenarioResult \<Rightarrow> 'w \<Rightarrow> (string \<times> ScenarioResult) list \<Rightarrow>
   (string \<times> ScenarioResult) list" where
  \<comment> \<open>the dictionary \<open>results\<close> after one round of \<open>run_each\<close>\<close>
  "saved_results d scenario result w res =
     (case fst (save_runs d w) of
        Ok u \<Rightarrow> AList.update (d_id scenario) result res
      | PlaywrightTimeout e \<Rightarrow>
          AList.update (d_id scenario) (crashed e) (AList.update (d_id scenario) result res)
      | Error e \<Rightarrow>
          AList.update (d_id scenario) (crashed e) (AList.update (d_id scenario) result res))"

definition core :: "ScenarioDict \<Rightarrow> string \<times> string \<times> TestStep list" where
  \<comment> \<open>what the executor reads of a scenario besides \<open>depends_on\<close>: \<open>scenario["id"]\<close>,
      \<open>scenario["name"]\<close> and \<open>scenario.get("steps", [])\<close>\<close>
  "core s = (d_id s, d_name s, d_steps s)"

subsection \<open>An example driver and example scenarios\<close>

definition demo_driver :: "(unit, string) Driver" where
  \<comment> \<open>a page with a title on which every selector is found but \<open>#missing\<close>, and on which
      no error element is to be seen\<close>
  "demo_driver =
     \<lparr>pw_launch = (\<lambda>w. (Ok (), w)), pw_new_page = (\<lambda>w. (Ok (), w)),
      pw_close_page = (\<lambda>w. (Ok (), w)), pw_close_browser = (\<lambda>w. (Ok (), w)),
      pw_goto = (\<lambda>url w. (Ok (), w)),
      pw_wait_for_selector =
        (\<lambda>sel w. if sel = ''#missing'' then (PlaywrightTimeout ''Timeout 3000ms exceeded.'', w)
                  else (Ok (Some sel), w)),
      pw_fill = (\<lambda>elem v w. (Ok (), w)), pw_click = (\<lambda>elem w. (Ok (), w)),
      pw_wait_for_load_state = (\<lambda>w. (Ok (), w)), pw_wait_for_timeout = (\<lambda>w. (Ok (), w)),
      pw_title = (\<lambda>w. (Ok ''Demo'', w)),
      pw_query_selector = (\<lambda>sel w. (Ok None, w)),
      pw_is_visible = (\<lambda>elem w. (Ok False, w)),
      save_runs = (\<lambda>w. (Ok (), w))\<rparr>"

definition blank_driver :: "(unit, string) Driver" where
  \<comment> \<open>the same page without a title\<close>
  "blank_driver = demo_driver\<lparr>pw_title := (\<lambda>w. (Ok [], w))\<rparr>"

definition failing_login :: ScenarioDict where
  "failing_login = \<lparr>d_id = ''auth_001'', d_name = ''Valid Login'',
     d_description = ''Test login with valid credentials'', d_module = ''auth'',
     d_type = ''happy_path'', d_priority = ''high'', d_depends_on = None,
     d_steps = [Step ''navigate'' ''/login'' None ''Go to login page'',
                Step ''fill'' ''#missing'' (Some ''testuser@example.com'') ''Enter email/username''],
     d_status = ''pending''\<rparr>"

definition dependent_view :: ScenarioDict where
  "dependent_view = \<lparr>d_id = ''dash_005'', d_name = ''View Dashboard'',
     d_description = ''Verify dashboard loads with correct elements'', d_module = ''dashboard'',
     d_type = ''happy_path'', d_priority = ''high'', d_depends_on = Some ''auth_001'',
     d_steps = [Step ''navigate'' ''/dashboard'' None ''Go to dashboard'',
                Step ''assert'' ''page_loaded'' None ''Verify page loads''],
     d_status = ''pending''\<rparr>"

definition wrong_password :: ScenarioDict where
  "wrong_password = \<lparr>d_id = ''auth_002'', d_name = ''Invalid Password'',
     d_description = ''Test login with wrong password shows error'', d_module = ''auth'',
     d_type = ''error_path'', d_priority = ''high'', d_depends_on = None,
     d_steps = [Step ''navigate'' ''/login'' None ''Go to login page'',
                Step ''assert'' ''error_message_visible'' None ''Verify error message shown'',
                Step ''assert'' ''validation_error'' None ''Verify validation error shown''],
     d_status = ''pending''\<rparr>"

definition undeclared_view :: ScenarioDict where
  \<comment> \<open>the dashboard scenario without its \<open>depends_on\<close>\<close>
  "undeclared_view = dependent_view\<lparr>d_depends_on := None\<rparr>"

definition self_declared_login :: ScenarioDict where
  \<comment> \<open>the login scenario with a \<open>depends_on\<close> that names itself, so that it runs first\<close>
  "self_declared_login = failing_login\<lparr>d_depends_on := Some ''auth_001''\<rparr>"

section \<open>Proofs: the planner\<close>

subsection \<open>Formatting of the counter\<close>

lemma fmt03_digit: "n < 10 \<Longrightarrow> fmt03 n = ''00'' @ [''0123456789'' ! n]"
  by (simp add: fmt03_def str_nat.simps eval_nat_numeral)

lemma fmt03_first:
  "fmt03 (Suc 0) = ''001''"
  "fmt03 (Suc (Suc 0)) = ''002''"
  "fmt03 (Suc (Suc (Suc 0))) = ''003''"
  "fmt03 (Suc (Suc (Suc (Suc 0)))) = ''004''"
  "fmt03 (Suc (Suc (Suc (Suc (Suc 0))))) = ''005''"
  by (simp_all add: fmt03_digit)

subsection \<open>What every emitted scenario satisfies\<close>

lemma plan_inv_init: "plan_inv PlannerAgent_init"
  by (simp add: plan_inv_def PlannerAgent_init_def)

lemma append_scenario_inv:
  assumes "plan_inv st" and "ok_emit p d"
  shows "plan_inv (append_scenario p n de m t pr d steps st)"
proof -
  have len: "scenario_counter st = length (scenarios st)"
    and old: "\<And>i. i < length (scenarios st) \<Longrightarrow> emitted_ok i (scenarios st ! i)"
    using assms(1) by (simp_all add: plan_inv_def)
  have p: "p \<in> set prefixes" using assms(2) by (simp add: ok_emit_def)
  let ?st = "append_scenario p n de m t pr d steps st"
  have scs: "scenarios ?st = scenarios st @
      [\<lparr>sc_id = p @ ''_'' @ fmt03 (Suc (length (scenarios st))), sc_name = n, sc_description = de, sc_module = m,
        sc_type = t, sc_priority = pr, sc_depends_on = d, sc_steps = steps, sc_status = ''pending''\<rparr>]"
    and cnt: "scenario_counter ?st = Suc (length (scenarios st))"
    by (simp_all add: append_scenario_def next_id_def len)
  have "emitted_ok i (scenarios ?st ! i)" if "i < length (scenarios ?st)" for i
  proof (cases "i < length (scenarios st)")
    case True
    then show ?thesis using old by (simp add: scs nth_append)
  next
    case False
    with that have "i = length (scenarios st)" by (simp add: scs)
    then show ?thesis using p assms(2) by (simp add: scs emitted_ok_def)
  qed
  then show ?thesis by (simp add: plan_inv_def cnt scs)
qed

lemma fold_inv:
  assumes "\<And>x s. P s \<Longrightarrow> P (f x s)" and "P s"
  shows "P (fold f xs s)"
  using assms(2) by (induction xs arbitrary: s) (simp_all add: assms(1))

lemma ok_emit_simps:
  "ok_emit ''auth'' None" "ok_emit ''dash'' None"
  "ok_emit ''dash'' (Some ''auth_001'')"
  "ok_emit ''profile'' (page_depends_on page)"
  "ok_emit ''crud'' (page_depends_on page)"
  "ok_emit ''gen'' (page_depends_on page)"
  by (simp_all add: ok_emit_def prefixes_def page_depends_on_def)

lemma auth_page_inv: "plan_inv st \<Longrightarrow> plan_inv (auth_page page st)"
  by (simp add: auth_page_def Let_def append_scenario_inv ok_emit_simps)


lemma fold_plan_inv:
  assumes "\<And>x s. plan_inv s \<Longrightarrow> plan_inv (f x s)" and "plan_inv s"
  shows "plan_inv (fold f xs s)"
  using assms by (rule fold_inv)

lemma dashboard_button_inv:
  "plan_inv st \<Longrightarrow> d = None \<or> d = Some ''auth_001'' \<Longrightarrow> plan_inv (dashboard_button page d btn st)"
  by (auto simp: dashboard_button_def append_scenario_inv ok_emit_simps)

lemma landing_link_inv: "plan_inv st \<Longrightarrow> plan_inv (landing_link page link st)"
  by (simp add: landing_link_def append_scenario_inv ok_emit_simps)

lemma dashboard_page_inv:
  assumes "plan_inv st" and "d = None \<or> d = Some ''auth_001''"
  shows "plan_inv (dashboard_page d page st)"
proof -
  have "plan_inv (append_scenario ''dash'' n de m t pr d steps st)" for n de m t pr steps
    using assms by (auto simp: append_scenario_inv ok_emit_simps)
  moreover have "plan_inv (append_scenario ''dash'' n de m t pr None steps st)" for n de m t pr steps
    using assms by (simp add: append_scenario_inv ok_emit_simps)
  ultimately show ?thesis
    using assms
    by (simp add: dashboard_page_def Let_def fold_plan_inv dashboard_button_inv landing_link_inv)
qed

lemma settings_form_inv: "plan_inv st \<Longrightarrow> plan_inv (settings_form page (page_depends_on page) form st)"
  by (simp add: settings_form_def append_scenario_inv ok_emit_simps)

lemma profile_page_inv: "plan_inv st \<Longrightarrow> plan_inv (profile_page page st)"
  by (simp add: profile_page_def Let_def fold_plan_inv settings_form_inv append_scenario_inv
      ok_emit_simps)

lemma crud_page_inv: "plan_inv st \<Longrightarrow> plan_inv (crud_page page st)"
  by (simp add: crud_page_def Let_def append_scenario_inv ok_emit_simps)

lemma general_form_inv:
  "plan_inv st \<Longrightarrow> plan_inv (general_form nm page (page_depends_on page) form st)"
  by (simp add: general_form_def append_scenario_inv ok_emit_simps)

lemma general_page_inv: "plan_inv st \<Longrightarrow> plan_inv (general_page nm page st)"
  by (simp add: general_page_def Let_def fold_plan_inv general_form_inv append_scenario_inv
      ok_emit_simps)

lemma generate_module_inv: "plan_inv st \<Longrightarrow> plan_inv (generate_module m st)"
  by (cases m)
     (simp add: generate_module_def generate_auth_scenarios_def generate_dashboard_scenarios_def
        generate_profile_scenarios_def generate_crud_scenarios_def generate_general_scenarios_def
        Let_def fold_plan_inv auth_page_inv dashboard_page_inv profile_page_inv crud_page_inv
        general_page_inv)

lemma planned_inv: "i < length (planned am) \<Longrightarrow> emitted_ok i (planned am ! i)"
  using fold_plan_inv [of generate_module PlannerAgent_init "am_modules am",
      OF generate_module_inv plan_inv_init]
  by (simp add: planned_def plan_inv_def)

subsection \<open>Grouping by module\<close>

lemma module_total_update:
  assumes "map_of out k = Some m" and "length (pm_scenarios v) = Suc (length (pm_scenarios m))"
  shows "module_total (AList.update k v out) = Suc (module_total out)"
  using assms by (induction out) (auto simp: module_total_def)

lemma set_update_existing:
  assumes "distinct (map fst out)" and "map_of out k = Some m"
  shows "set (AList.update k v out) = insert (k, v) (set out - {(k, m)})"
  using assms
proof (induction out)
  case Nil
  then show ?case by simp
next
  case (Cons a out)
  show ?case
  proof (cases "fst a = k")
    case True
    with Cons.prems have "a = (k, m)" by (cases a) simp
    moreover have "(k, m) \<notin> set out" using Cons.prems(1) True by (force simp: image_iff)
    ultimately show ?thesis by auto
  next
    case False
    with Cons have "set (AList.update k v out) = insert (k, v) (set out - {(k, m)})" by simp
    with False show ?thesis by (cases a) auto
  qed
qed

lemma group_scenario_grouped:
  assumes "grouped scs out"
  shows "grouped (scs @ [s]) (group_scenario mods s out)"
proof (cases "map_of out (sc_module s)")
  case None
  then have notin: "sc_module s \<notin> fst ` set out" by (simp add: map_of_eq_None_iff)
  have keyset: "fst ` set out = sc_module ` set scs" using assms by (simp add: grouped_def)
  have "sc_module x \<noteq> sc_module s" if "x \<in> set scs" for x
    using notin that unfolding keyset by (metis imageI)
  then have nomod: "filter (\<lambda>x. sc_module x = sc_module s) scs = []"
    by (simp add: filter_empty_conv)
  have other: "km \<in> set out \<Longrightarrow> fst km \<noteq> sc_module s" for km
    using notin by (metis imageI)
  show ?thesis
    using assms None notin
    by (auto simp: grouped_def group_scenario_def module_total_def nomod dest: other)
next
  case (Some m)
  then have mem: "(sc_module s, m) \<in> set out" by (rule map_of_SomeD)
  let ?v = "m\<lparr>pm_scenarios := pm_scenarios m @ [to_dict s]\<rparr>"
  have d: "distinct (map fst out)" using assms by (simp add: grouped_def)
  have out': "group_scenario mods s out = AList.update (sc_module s) ?v out"
    by (simp add: group_scenario_def Some)
  have keys: "map fst (AList.update (sc_module s) ?v out) = map fst out"
    using mem by (simp add: update_keys image_iff) force
  have setu: "set (AList.update (sc_module s) ?v out) = insert (sc_module s, ?v) (set out - {(sc_module s, m)})"
    using d Some by (rule set_update_existing)
  have tot: "module_total (AList.update (sc_module s) ?v out) = Suc (module_total out)"
    using Some by (rule module_total_update) simp
  have inset: "sc_module s \<in> set (map sc_module scs)"
    using assms mem by (force simp: grouped_def)
  have "pm_scenarios (snd km) = map to_dict (filter (\<lambda>x. sc_module x = fst km) (scs @ [s]))"
    if "km \<in> set (AList.update (sc_module s) ?v out)" for km
  proof (cases "km = (sc_module s, ?v)")
    case True
    then show ?thesis using assms mem by (auto simp: grouped_def)
  next
    case False
    with that setu have km: "km \<in> set out" "km \<noteq> (sc_module s, m)" by auto
    then have "fst km \<noteq> sc_module s"
      using d mem by (metis eq_key_imp_eq_value prod.collapse)
    then show ?thesis using assms km by (auto simp: grouped_def)
  qed
  then show ?thesis
    using assms inset by (simp add: grouped_def out' keys tot del: set_map) (auto simp: keys)
qed

lemma fold_group_grouped:
  "grouped pre out \<Longrightarrow> grouped (pre @ xs) (fold (group_scenario mods) xs out)"
proof (induction xs arbitrary: pre out)
  case Nil
  then show ?case by simp
next
  case (Cons x xs)
  from Cons.IH [OF group_scenario_grouped [OF Cons.prems]] show ?case by simp
qed

lemma generate_scenarios_grouped:
  "grouped (planned am) (plan_modules (generate_scenarios am))"
  using fold_group_grouped [of "[]" "[]" "planned am" "am_modules am"]
  by (simp add: generate_scenarios_def grouped_def module_total_def Let_def)

subsection \<open>The plans of the example app maps\<close>

lemma login_and_landing_ids:
  "map sc_id (planned login_and_landing_map) =
     [''auth_001'', ''auth_002'', ''auth_003'', ''auth_004'', ''dash_005'']"
  by (simp add: planned_def login_and_landing_map_def login_page_def landing_page_def
      generate_module_def generate_auth_scenarios_def generate_dashboard_scenarios_def
      auth_page_def dashboard_page_def append_scenario_def next_id_def PlannerAgent_init_def
      fmt03_first Let_def)

lemma login_and_landing_modules:
  "map sc_module (planned login_and_landing_map) =
     [''auth'', ''auth'', ''auth'', ''auth'', ''dashboard'']"
  by (simp add: planned_def login_and_landing_map_def login_page_def landing_page_def
      generate_module_def generate_auth_scenarios_def generate_dashboard_scenarios_def
      auth_page_def dashboard_page_def append_scenario_def next_id_def PlannerAgent_init_def
      Let_def)

subsection \<open>Claims about the planner\<close>

text \<open>
  Claim C4. For an app map whose only module is \<open>auth\<close> with one page of type \<open>login\<close>
  (whatever its form, fields and submit button), the planner emits exactly four scenarios,
  with the ids \<open>auth_001\<close>, \<open>auth_002\<close>, \<open>auth_003\<close>, \<open>auth_004\<close> in emission order and the
  types \<open>happy_path\<close>, \<open>error_path\<close>, \<open>edge_case\<close>, \<open>security\<close>; the plan counts four
  scenarios and lists them, in that order, under the module \<open>auth\<close>.
\<close>

theorem login_page_plan:
  assumes "pg_type p = ''login''" and "am_modules am = [(''auth'', md)]" and "md_pages md = [p]"
  shows "map sc_id (planned am) = [''auth_001'', ''auth_002'', ''auth_003'', ''auth_004''] \<and>
         map sc_type (planned am) = [HAPPY_PATH, ERROR_PATH, EDGE_CASE, SECURITY] \<and>
         plan_total_scenarios (generate_scenarios am) = 4 \<and>
         map fst (plan_modules (generate_scenarios am)) = [''auth''] \<and>
         map (\<lambda>d. (d_id d, d_type d))
             (concat (map (\<lambda>km. pm_scenarios (snd km)) (plan_modules (generate_scenarios am)))) =
           [(''auth_001'', ''happy_path''), (''auth_002'', ''error_path''),
            (''auth_003'', ''edge_case''), (''auth_004'', ''security'')]"
  using assms
  by (simp add: generate_scenarios_def group_scenario_def to_dict_def planned_def
      generate_module_def generate_auth_scenarios_def auth_page_def append_scenario_def
      next_id_def PlannerAgent_init_def fmt03_first Let_def)

theorem login_page_plan_witness:
  "pg_type login_page = ''login'' \<and>
   am_modules login_only_map = [(''auth'', \<lparr>md_pages = [login_page], md_requires_auth = Some False\<rparr>)] \<and>
   map sc_id (planned login_only_map) = [''auth_001'', ''auth_002'', ''auth_003'', ''auth_004''] \<and>
   map sc_type (planned login_only_map) = [HAPPY_PATH, ERROR_PATH, EDGE_CASE, SECURITY] \<and>
   plan_total_scenarios (generate_scenarios login_only_map) = 4"
proof -
  have t: "pg_type login_page = ''login''" by (simp add: login_page_def)
  have m: "am_modules login_only_map =
      [(''auth'', \<lparr>md_pages = [login_page], md_requires_auth = Some False\<rparr>)]"
    by (simp add: login_only_map_def)
  from login_page_plan [OF t m] t m show ?thesis by simp
qed

text \<open>
  Claim C3, as the specification states it: within each prefix family the numeric suffixes
  start at 001 and go up by one, whatever is emitted under the other prefixes. The plan of
  a site with a login page and a landing page refutes it: its only \<open>dash\<close> scenario has
  the id \<open>dash_005\<close>.
\<close>

theorem ids_not_sequential_per_prefix:
  "\<not> sequential_per_prefix (planned login_and_landing_map)"
proof
  assume "sequential_per_prefix (planned login_and_landing_map)"
  then have "family ''dash'' (planned login_and_landing_map) =
      map (\<lambda>k. ''dash'' @ ''_'' @ fmt03 (Suc k))
        [0 ..< length (family ''dash'' (planned login_and_landing_map))]"
    by (simp add: sequential_per_prefix_def prefixes_def)
  moreover have "family ''dash'' (planned login_and_landing_map) = [''dash_005'']"
    by (simp add: family_def login_and_landing_ids startswith_def)
  ultimately show False by (simp add: fmt03_first)
qed

text \<open>
  Claim C3, amended. \<open>_next_id\<close> counts with one counter for all prefixes: the scenario at
  position \<open>i + 1\<close> of the emission order has the id \<open>prefix_NNN\<close>, where \<open>prefix\<close> is one of
  \<open>auth\<close>, \<open>dash\<close>, \<open>profile\<close>, \<open>crud\<close>, \<open>gen\<close> and \<open>NNN\<close> is \<open>i + 1\<close> written with at least
  three digits.
\<close>

theorem ids_follow_one_counter:
  "i < length (planned am) \<Longrightarrow>
   \<exists>p \<in> set prefixes. sc_id (planned am ! i) = p @ ''_'' @ fmt03 (i + 1)"
  using planned_inv [of i am] by (auto simp: emitted_ok_def)

theorem ids_follow_one_counter_witness:
  "4 < length (planned login_and_landing_map) \<and>
   (\<exists>p \<in> set prefixes. sc_id (planned login_and_landing_map ! 4) = p @ ''_'' @ fmt03 (4 + 1)) \<and>
   sc_id (planned login_and_landing_map ! 4) = ''dash_005''"
proof -
  have len: "length (planned login_and_landing_map) = 5"
    using arg_cong [OF login_and_landing_ids, of length] by simp
  then have lt: "4 < length (planned login_and_landing_map)" by simp
  have "sc_id (planned login_and_landing_map ! 4) = map sc_id (planned login_and_landing_map) ! 4"
    using lt by simp
  then have "sc_id (planned login_and_landing_map ! 4) = ''dash_005''"
    by (simp add: login_and_landing_ids)
  with ids_follow_one_counter [OF lt] lt show ?thesis by simp
qed

text \<open>
  Claim C2: a dependency that is set names a scenario of the same plan emitted strictly
  earlier. The generators set the dependency to the constant \<open>auth_001\<close>. For a site whose
  only page is a dashboard the plan holds the single scenario \<open>dash_001\<close>, which depends on
  \<open>auth_001\<close>, a scenario that the plan does not have.
\<close>

theorem dependency_on_missing_login:
  "map (\<lambda>s. (sc_id s, sc_depends_on s)) (planned dashboard_only_map) =
     [(''dash_001'', Some ''auth_001'')] \<and>
   ''auth_001'' \<notin> set (map sc_id (planned dashboard_only_map))"
  by (simp add: planned_def dashboard_only_map_def dashboard_page_ex_def generate_module_def
      generate_dashboard_scenarios_def dashboard_page_def append_scenario_def next_id_def
      PlannerAgent_init_def fmt03_first Let_def)

text \<open>
  Claim C10. The plan that \<open>generate_scenarios\<close> returns is consistent: \<open>total_scenarios\<close>
  is the sum over the modules of the number of scenarios listed there; the keys of the
  modules are distinct; every emitted scenario has the status \<open>pending\<close>, the module named
  by its \<open>module\<close> field is a key of the plan, and the scenario is listed in a module of the
  plan exactly when the key of that module is its \<open>module\<close> field; every listed scenario
  has the status \<open>pending\<close>.
\<close>

theorem plan_consistent:
  "plan_total_scenarios (generate_scenarios am) = module_total (plan_modules (generate_scenarios am)) \<and>
   distinct (map fst (plan_modules (generate_scenarios am))) \<and>
   (\<forall>i < length (planned am).
      sc_module (planned am ! i) \<in> set (map fst (plan_modules (generate_scenarios am))) \<and>
      sc_status (planned am ! i) = ''pending'' \<and>
      (\<forall>km \<in> set (plan_modules (generate_scenarios am)).
         (to_dict (planned am ! i) \<in> set (pm_scenarios (snd km))) = (fst km = sc_module (planned am ! i)))) \<and>
   (\<forall>km \<in> set (plan_modules (generate_scenarios am)).
      \<forall>d \<in> set (pm_scenarios (snd km)). d_status d = ''pending'')"
proof -
  let ?scs = "planned am" and ?mods = "plan_modules (generate_scenarios am)"
  have g: "grouped ?scs ?mods" by (rule generate_scenarios_grouped)
  have total: "plan_total_scenarios (generate_scenarios am) = length ?scs"
    by (simp add: generate_scenarios_def Let_def)
  have lists: "pm_scenarios (snd km) = map to_dict (filter (\<lambda>s. sc_module s = fst km) ?scs)"
    if "km \<in> set ?mods" for km
    using g that by (simp add: grouped_def)
  have pending: "sc_status s = ''pending''" if "s \<in> set ?scs" for s
  proof -
    from that obtain i where "i < length ?scs" and "?scs ! i = s" by (auto simp: in_set_conv_nth)
    with planned_inv [of i am] show ?thesis by (simp add: emitted_ok_def)
  qed
  have member: "(to_dict s \<in> set (pm_scenarios (snd km))) = (fst km = sc_module s)"
    if s: "s \<in> set ?scs" and km: "km \<in> set ?mods" for s km
  proof
    assume "to_dict s \<in> set (pm_scenarios (snd km))"
    then obtain s' where "to_dict s' = to_dict s" and s': "sc_module s' = fst km"
      using lists [OF km] by auto
    then have "d_module (to_dict s') = d_module (to_dict s)" by simp
    then show "fst km = sc_module s" using s' by (simp add: to_dict_def)
  next
    assume "fst km = sc_module s"
    then show "to_dict s \<in> set (pm_scenarios (snd km))"
      using lists [OF km] s by auto
  qed
  have keys: "sc_module s \<in> set (map fst ?mods)" if "s \<in> set ?scs" for s
    using g that by (simp add: grouped_def)
  have dicts: "d_status d = ''pending''"
    if "km \<in> set ?mods" and "d \<in> set (pm_scenarios (snd km))" for km d
  proof -
    from that lists obtain s where "s \<in> set ?scs" and "d = to_dict s" by auto
    then show ?thesis using pending by (simp add: to_dict_def)
  qed
  have "plan_total_scenarios (generate_scenarios am) = module_total ?mods"
    using g total by (simp add: grouped_def)
  moreover have "distinct (map fst ?mods)" using g by (simp add: grouped_def)
  ultimately show ?thesis using pending member keys dicts by (simp del: set_map)
qed

theorem plan_consistent_witness:
  "4 < length (planned login_and_landing_map) \<and>
   sc_module (planned login_and_landing_map ! 4) = ''dashboard'' \<and>
   ''dashboard'' \<in> set (map fst (plan_modules (generate_scenarios login_and_landing_map))) \<and>
   sc_status (planned login_and_landing_map ! 4) = ''pending'' \<and>
   plan_total_scenarios (generate_scenarios login_and_landing_map) = 5 \<and>
   module_total (plan_modules (generate_scenarios login_and_landing_map)) = 5"
proof -
  have len: "length (planned login_and_landing_map) = 5"
    using arg_cong [OF login_and_landing_ids, of length] by simp
  then have lt: "4 < length (planned login_and_landing_map)" by simp
  have "sc_module (planned login_and_landing_map ! 4) =
      map sc_module (planned login_and_landing_map) ! 4"
    using lt by simp
  then have m: "sc_module (planned login_and_landing_map ! 4) = ''dashboard''"
    by (simp add: login_and_landing_modules)
  have t: "plan_total_scenarios (generate_scenarios login_and_landing_map) = 5"
    using len by (simp add: generate_scenarios_def Let_def)
  from plan_consistent [of login_and_landing_map] lt
  have "sc_module (planned login_and_landing_map ! 4)
          \<in> set (map fst (plan_modules (generate_scenarios login_and_landing_map))) \<and>
        sc_status (planned login_and_landing_map ! 4) = ''pending'' \<and>
        plan_total_scenarios (generate_scenarios login_and_landing_map) =
          module_total (plan_modules (generate_scenarios login_and_landing_map))"
    by blast
  with lt m t show ?thesis by simp
qed

section \<open>Proofs: selectors of form inputs\<close>





section \<open>Proofs: the batch executor\<close>

lemma set_alist_update_subset: "set (AList.update k v al) \<subseteq> insert (k, v) (set al)"
  by (induction al) auto













lemma separator_id_raises:
  "generate_code_and_execute (Returned ()) separator_id_batch = Inl (WriteError ''api/users'')"
  by (simp add: generate_code_and_execute_def separator_id_batch_def write_test_file_def
      test_id_of_def upt_rec)

lemma run_jobs_returns:
  assumes "\<forall>ij \<in> set js. write_test_file (test_id_of (fst ij) (job_scenario (snd ij)))
             (job_write (snd ij)) = Returned ()"
  shows "run_jobs js b = Inr (fold run_one js b)"
  using assms by (induction js arbitrary: b) simp_all

lemma run_jobs_raises:
  assumes "run_jobs js b = Inl e"
  shows "\<exists>ij \<in> set js. e = WriteError (test_id_of (fst ij) (job_scenario (snd ij))) \<and>
           write_test_file (test_id_of (fst ij) (job_scenario (snd ij))) (job_write (snd ij))
             \<noteq> Returned ()"
  using assms
proof (induction js arbitrary: b)
  case Nil
  then show ?case by simp
next
  case (Cons ij js)
  show ?case
  proof (cases "write_test_file (test_id_of (fst ij) (job_scenario (snd ij))) (job_write (snd ij))")
    case (Raised msg)
    with Cons.prems show ?thesis by auto
  next
    case (Returned u)
    with Cons.prems have "run_jobs js (run_one ij b) = Inl e" by simp
    from Cons.IH [OF this] show ?thesis by auto
  qed
qed



lemma output_when_files_written:
  assumes "\<forall>ij \<in> set (zip [0 ..< length jobs] jobs).
             write_test_file (test_id_of (fst ij) (job_scenario (snd ij))) (job_write (snd ij))
               = Returned ()"
  shows "\<exists>out. generate_code_and_execute (Returned ()) jobs = Inr out"
  using run_jobs_returns [OF assms] by (simp add: generate_code_and_execute_def)





section \<open>Proofs: the retry loop of the orchestrator\<close>

lemma should_fix_iff:
  "(should_fix st = ''fix_tests'') =
     ((case test_results st of None \<Rightarrow> 0 | Some res \<Rightarrow> out_exit_code res) \<noteq> 0 \<and>
      retries_of st < max_retries_of st)"
  by (simp add: should_fix_def Let_def)

lemma execute_fails:
  assumes "always_fails w" and "project_path st = Some p"
  shows "\<exists>r. test_results (execute_tests_node w i st) = Some r \<and> out_exit_code r \<noteq> 0"
    and "project_path (execute_tests_node w i st) = Some p"
    and "retries (execute_tests_node w i st) = retries st"
    and "max_retries (execute_tests_node w i st) = max_retries st"
proof -
  from assms(1) obtain r where "w_execute w i = Returned r" and "out_exit_code r \<noteq> 0"
    unfolding always_fails_def by blast
  then show "\<exists>r. test_results (execute_tests_node w i st) = Some r \<and> out_exit_code r \<noteq> 0"
    and "project_path (execute_tests_node w i st) = Some p"
    and "retries (execute_tests_node w i st) = retries st"
    and "max_retries (execute_tests_node w i st) = max_retries st"
    using assms(2) by (simp_all add: execute_tests_node_def)
qed

lemma fix_counts:
  assumes "project_path st = Some p"
  shows "retries (fix_tests_node w i st) = Some (retries_of st + 1)"
    and "project_path (fix_tests_node w i st) = Some p"
    and "max_retries (fix_tests_node w i st) = max_retries st"
    and "test_results (fix_tests_node w i st) = test_results st"
  using assms by (simp_all add: fix_tests_node_def Let_def)

lemma report_keeps: "retries (report_node w st) = retries st"
  by (simp add: report_node_def split: option.splits call.splits)

lemma retry_rounds:
  assumes "always_fails w" and "project_path st = Some p"
    and "max_retries_of st - retries_of st = int n"
  shows "\<exists>st'. run_from_execute (Suc n + k) w i st = Some (rounds n, st') \<and>
               retries st' = (if n = 0 then retries st else Some (max_retries_of st))"
  using assms(2,3)
proof (induction n arbitrary: st i)
  case 0
  let ?st1 = "execute_tests_node w i st"
  note e = execute_fails [OF assms(1) "0.prems"(1), of i]
  have "retries_of ?st1 = max_retries_of ?st1"
    using e(3,4) "0.prems"(2) by (simp add: retries_of_def max_retries_of_def)
  then have "should_fix ?st1 \<noteq> ''fix_tests''" by (simp add: should_fix_iff)
  then show ?case using e(3) by (simp add: Let_def report_keeps)
next
  case (Suc n)
  let ?st1 = "execute_tests_node w i st"
  let ?st2 = "fix_tests_node w i ?st1"
  note e = execute_fails [OF assms(1) Suc.prems(1), of i]
  have r1: "retries_of ?st1 = retries_of st" and m1: "max_retries_of ?st1 = max_retries_of st"
    using e(3,4) by (simp_all add: retries_of_def max_retries_of_def)
  have "retries_of ?st1 < max_retries_of ?st1" using r1 m1 Suc.prems(2) by simp
  then have again: "should_fix ?st1 = ''fix_tests''" using e(1) by (auto simp: should_fix_iff)
  note f = fix_counts [OF e(2), of w i]
  have r2: "retries_of ?st2 = retries_of st + 1" using f(1) r1 by (simp add: retries_of_def)
  have m2: "max_retries_of ?st2 = max_retries_of st"
    using f(3) m1 by (simp add: max_retries_of_def)
  have "max_retries_of ?st2 - retries_of ?st2 = int n" using r2 m2 Suc.prems(2) by simp
  from Suc.IH [OF f(2) this, of "Suc i"] obtain st'
    where run: "run_from_execute (Suc n + k) w (Suc i) ?st2 = Some (rounds n, st')"
      and fin: "retries st' = (if n = 0 then retries ?st2 else Some (max_retries_of ?st2))"
    by auto
  have "retries ?st2 = Some (max_retries_of st)" if "n = 0"
    using that f(1) r1 Suc.prems(2) by simp
  then have "retries st' = Some (max_retries_of st)" using fin m2 by simp
  then show ?case using again run by (simp add: Let_def)
qed

text \<open>
  Claim C1. The decision after \<open>execute\<close> is \<open>fix_tests\<close> exactly when the composite exit
  code is not zero and \<open>retries < max_retries\<close>. In a run whose batch always returns an exit
  code that is not zero, started with \<open>retries = 0\<close> and \<open>max_retries = 3\<close> (and with the
  project path that \<open>run_agent_task\<close> always sets), the nodes run from \<open>execute\<close> on are
  \<open>execute\<close> four times with \<open>fix_tests\<close> in between, then \<open>report\<close>; \<open>retries\<close> ends at 3,
  and the run ends with the status \<open>completed\<close>. This holds for every bound of at least
  four rounds.
\<close>

theorem retry_loop_bound:
  assumes "always_fails w" and "project_path st = Some p"
    and "retries_of st = 0" and "max_retries_of st = 3"
  shows "(\<forall>s. (should_fix s = ''fix_tests'') =
            ((case test_results s of None \<Rightarrow> 0 | Some res \<Rightarrow> out_exit_code res) \<noteq> 0 \<and>
             retries_of s < max_retries_of s)) \<and>
         (\<exists>st'. run_from_execute (4 + k) w 0 st =
                  Some ([''execute'', ''fix_tests'', ''execute'', ''fix_tests'',
                         ''execute'', ''fix_tests'', ''execute'', ''report''], st') \<and>
                retries st' = Some 3 \<and>
                run_status (run_from_execute (4 + k) w 0 st) = ''completed'')"
proof -
  have "max_retries_of st - retries_of st = int 3" using assms(3,4) by simp
  from retry_rounds [OF assms(1,2) this, of k 0] obtain st'
    where "run_from_execute (Suc 3 + k) w 0 st = Some (rounds 3, st')"
      and "retries st' = Some (max_retries_of st)" by auto
  moreover have "rounds 3 = [''execute'', ''fix_tests'', ''execute'', ''fix_tests'',
      ''execute'', ''fix_tests'', ''execute'', ''report'']"
    by (simp add: eval_nat_numeral)
  moreover have "Suc 3 + k = 4 + k" by simp
  ultimately show ?thesis using assms(4) by (simp add: should_fix_iff run_status_def)
qed

theorem retry_loop_bound_witness:
  "always_fails failing_world \<and> project_path (initial_state ''/tmp/run'') = Some ''/tmp/run'' \<and>
   retries_of (initial_state ''/tmp/run'') = 0 \<and> max_retries_of (initial_state ''/tmp/run'') = 3 \<and>
   (\<exists>st'. run_from_execute 4 failing_world 0 (initial_state ''/tmp/run'') =
             Some ([''execute'', ''fix_tests'', ''execute'', ''fix_tests'',
                    ''execute'', ''fix_tests'', ''execute'', ''report''], st') \<and>
           retries st' = Some 3) \<and>
   run_status (run_from_execute 4 failing_world 0 (initial_state ''/tmp/run'')) = ''completed''"
proof -
  have a: "always_fails failing_world"
    by (simp add: always_fails_def failing_world_def failing_output_def)
  have p: "project_path (initial_state ''/tmp/run'') = Some ''/tmp/run''"
    by (simp add: initial_state_def)
  have r: "retries_of (initial_state ''/tmp/run'') = 0"
    by (simp add: initial_state_def retries_of_def)
  have m: "max_retries_of (initial_state ''/tmp/run'') = 3"
    by (simp add: initial_state_def max_retries_of_def)
  from retry_loop_bound [OF a p r m, of 0]
  have "\<exists>st'. run_from_execute 4 failing_world 0 (initial_state ''/tmp/run'') =
             Some ([''execute'', ''fix_tests'', ''execute'', ''fix_tests'',
                    ''execute'', ''fix_tests'', ''execute'', ''report''], st') \<and>
           retries st' = Some 3 \<and>
           run_status (run_from_execute 4 failing_world 0 (initial_state ''/tmp/run'')) = ''completed''"
    by simp
  with a p r m show ?thesis by blast
qed

section \<open>Proofs: the crawl of the explorer\<close>

lemma extract_page_info_url: "pg_url (extract_page_info lib c url) = url"
  by (simp add: extract_page_info_def)

lemma links_safe_from_page:
  assumes "page_safe n lib web max_pages"
  shows "links_safe n lib web max_pages"
proof -
  have "crawl_inv lib ex' \<and> ex_domain ex' = ex_domain ex"
    if "explore_links n lib web max_pages url links ex = Some ex'" and "crawl_inv lib ex"
    for url links ex ex'
    using that
  proof (induction links arbitrary: ex)
    case Nil
    then show ?case by simp
  next
    case (Cons link links)
    show ?case
    proof (cases "urljoin lib url link")
      case None
      with Cons.prems show ?thesis by simp
    next
      case (Some full_url)
      show ?thesis
      proof (cases "full_url \<in> set (visited_urls ex)")
        case True
        with Some Cons.prems Cons.IH [of ex] show ?thesis by simp
      next
        case False
        with Some Cons.prems(1) obtain flag ex1
          where page: "explore_page n lib web max_pages full_url ex = Some (flag, ex1)"
            and rest: "if flag then ex' = ex1
                       else explore_links n lib web max_pages url links ex1 = Some ex'"
          by (auto split: option.splits bool.splits prod.splits if_splits)
        from assms page Cons.prems(2)
        have inv1: "crawl_inv lib ex1" and dom1: "ex_domain ex1 = ex_domain ex"
          unfolding page_safe_def by blast+
        show ?thesis
        proof (cases flag)
          case True
          with rest inv1 dom1 show ?thesis by simp
        next
          case False
          with rest have "explore_links n lib web max_pages url links ex1 = Some ex'" by simp
          from Cons.IH [OF this inv1] dom1 show ?thesis by simp
        qed
      qed
    qed
  qed
  then show ?thesis unfolding links_safe_def by blast
qed

lemma page_safe_Suc:
  assumes "links_safe n lib web max_pages"
  shows "page_safe (Suc n) lib web max_pages"
proof -
  have "crawl_inv lib ex' \<and> ex_domain ex' = ex_domain ex"
    if run: "explore_page (Suc n) lib web max_pages url ex = Some (flag, ex')"
      and inv: "crawl_inv lib ex"
    for url ex flag ex'
  proof (cases "url \<in> set (visited_urls ex) \<or> int (length (visited_urls ex)) \<ge> max_pages")
    case True
    with run inv show ?thesis by auto
  next
    case proceed: False
    show ?thesis
    proof (cases "netloc lib url")
      case None
      with proceed run inv show ?thesis by auto
    next
      case (Some host)
      show ?thesis
      proof (cases "host = ex_domain ex")
        case False
        with proceed Some run inv show ?thesis by auto
      next
        case True
        let ?ex1 = "ex\<lparr>visited_urls := url # visited_urls ex\<rparr>"
        have inv1: "crawl_inv lib ?ex1" using inv Some True by (simp add: crawl_inv_def)
        show ?thesis
        proof (cases "web url")
          case GotoRaised
          with proceed Some True run inv1 show ?thesis by auto
        next
          case NoResponse
          with proceed Some True run inv1 show ?thesis by auto
        next
          case (Loaded content hrefs)
          show ?thesis
          proof (cases content)
            case None
            with Loaded proceed Some True run inv1 show ?thesis by auto
          next
            case (Some c)
            let ?ex2 = "add_page (extract_page_info lib c url) url ?ex1"
            have inv2: "crawl_inv lib ?ex2" and dom2: "ex_domain ?ex2 = ex_domain ex"
              using inv1 \<open>netloc lib url = Some host\<close> True
              by (simp_all add: crawl_inv_def add_page_def extract_page_info_url)
            show ?thesis
            proof (cases hrefs)
              case None
              with Loaded Some proceed \<open>netloc lib url = Some host\<close> True run
              have "ex' = ?ex2" by (simp add: Let_def)
              with inv2 dom2 show ?thesis by simp
            next
              case (Some hs)
              with Loaded \<open>content = Some c\<close> proceed \<open>netloc lib url = Some host\<close> True run
              have "explore_links n lib web max_pages url (extract_links hs) ?ex2 = Some ex'"
                by (simp add: Let_def split: option.splits)
              with assms inv2 have "crawl_inv lib ex' \<and> ex_domain ex' = ex_domain ?ex2"
                unfolding links_safe_def by blast
              with dom2 show ?thesis by simp
            qed
          qed
        qed
      qed
    qed
  qed
  then show ?thesis unfolding page_safe_def by blast
qed

lemma page_safe_all: "page_safe n lib web max_pages"
proof (induction n)
  case 0
  then show ?case by (simp add: page_safe_def)
next
  case (Suc n)
  then show ?case by (intro page_safe_Suc links_safe_from_page)
qed

lemma links_return_from_page:
  assumes "page_returns n lib web max_pages"
  shows "links_return n lib web max_pages"
proof -
  have "\<exists>ex'. explore_links n lib web max_pages url links ex = Some ex' \<and>
           length (visited_urls ex) \<le> length (visited_urls ex')"
    if "room max_pages ex < n" for url links ex
    using that
  proof (induction links arbitrary: ex)
    case Nil
    then show ?case by simp
  next
    case (Cons link links)
    show ?case
    proof (cases "urljoin lib url link")
      case None
      then show ?thesis by simp
    next
      case (Some full_url)
      show ?thesis
      proof (cases "full_url \<in> set (visited_urls ex)")
        case True
        with Some Cons.IH [OF Cons.prems] show ?thesis by simp
      next
        case False
        from assms Cons.prems obtain flag ex1
          where page: "explore_page n lib web max_pages full_url ex = Some (flag, ex1)"
            and grow: "length (visited_urls ex) \<le> length (visited_urls ex1)"
          unfolding page_returns_def by blast
        show ?thesis
        proof (cases flag)
          case True
          with Some False page grow show ?thesis by simp
        next
          case no_raise: False
          have "room max_pages ex1 < n" using grow Cons.prems by (simp add: room_def)
          from Cons.IH [OF this] obtain ex'
            where "explore_links n lib web max_pages url links ex1 = Some ex'"
              and "length (visited_urls ex1) \<le> length (visited_urls ex')" by blast
          with Some False page grow no_raise show ?thesis by simp
        qed
      qed
    qed
  qed
  then show ?thesis unfolding links_return_def by blast
qed

lemma page_returns_Suc:
  assumes "links_return n lib web max_pages"
  shows "page_returns (Suc n) lib web max_pages"
proof -
  have "\<exists>flag ex'. explore_page (Suc n) lib web max_pages url ex = Some (flag, ex') \<and>
           length (visited_urls ex) \<le> length (visited_urls ex')"
    if fuel: "room max_pages ex < Suc n" for url ex
  proof (cases "url \<in> set (visited_urls ex) \<or> int (length (visited_urls ex)) \<ge> max_pages")
    case True
    then show ?thesis by auto
  next
    case proceed: False
    show ?thesis
    proof (cases "netloc lib url")
      case None
      with proceed show ?thesis by auto
    next
      case (Some host)
      show ?thesis
      proof (cases "host = ex_domain ex")
        case False
        with proceed Some show ?thesis by auto
      next
        case True
        let ?ex1 = "ex\<lparr>visited_urls := url # visited_urls ex\<rparr>"
        show ?thesis
        proof (cases "web url")
          case GotoRaised
          with proceed Some True show ?thesis by auto
        next
          case NoResponse
          with proceed Some True show ?thesis by auto
        next
          case (Loaded content hrefs)
          show ?thesis
          proof (cases content)
            case None
            with Loaded proceed Some True show ?thesis by auto
          next
            case (Some c)
            let ?ex2 = "add_page (extract_page_info lib c url) url ?ex1"
            have v2: "visited_urls ?ex2 = url # visited_urls ex" by (simp add: add_page_def)
            show ?thesis
            proof (cases hrefs)
              case None
              with Loaded Some proceed \<open>netloc lib url = Some host\<close> True v2 show ?thesis
                by (auto simp: Let_def)
            next
              case (Some hs)
              have "room max_pages ?ex2 < n" using fuel proceed v2 by (simp add: room_def) linarith
              with assms obtain ex'
                where "explore_links n lib web max_pages url (extract_links hs) ?ex2 = Some ex'"
                  and "length (visited_urls ?ex2) \<le> length (visited_urls ex')"
                unfolding links_return_def by blast
              with Loaded \<open>content = Some c\<close> Some proceed \<open>netloc lib url = Some host\<close> True v2
              show ?thesis by (auto simp: Let_def)
            qed
          qed
        qed
      qed
    qed
  qed
  then show ?thesis unfolding page_returns_def by blast
qed

lemma page_returns_all: "page_returns n lib web max_pages"
proof (induction n)
  case 0
  then show ?case by (simp add: page_returns_def)
next
  case (Suc n)
  then show ?case by (intro page_returns_Suc links_return_from_page)
qed

lemma crawl_returns: "\<exists>flag ex. crawl lib web base_url max_pages = Some (flag, ex)"
proof (cases "netloc lib base_url")
  case None
  then show ?thesis by (auto simp: crawl_def)
next
  case (Some host)
  have "room max_pages (Explorer_init base_url host) < Suc (nat max_pages)"
    by (simp add: room_def Explorer_init_def)
  with page_returns_all [of "Suc (nat max_pages)" lib web max_pages] Some show ?thesis
    unfolding page_returns_def crawl_def by (simp del: explore_page.simps) blast
qed

lemma crawl_inv_result:
  assumes "crawl lib web base_url max_pages = Some (flag, ex)"
  shows "crawl_inv lib ex \<and> (netloc lib base_url \<noteq> None \<longrightarrow> Some (ex_domain ex) = netloc lib base_url)"
proof (cases "netloc lib base_url")
  case None
  with assms show ?thesis by (auto simp: crawl_def crawl_inv_def Explorer_init_def)
next
  case (Some host)
  have "crawl_inv lib (Explorer_init base_url host)"
    by (simp add: crawl_inv_def Explorer_init_def)
  moreover from assms Some
  have "explore_page (Suc (nat max_pages)) lib web max_pages (rstrip_slash base_url)
          (Explorer_init base_url host) = Some (flag, ex)"
    by (simp add: crawl_def del: explore_page.simps)
  ultimately have "crawl_inv lib ex \<and> ex_domain ex = ex_domain (Explorer_init base_url host)"
    using page_safe_all [of "Suc (nat max_pages)" lib web max_pages]
    unfolding page_safe_def by blast
  then show ?thesis using Some by (simp add: Explorer_init_def)
qed

lemma group_into_modules_pages:
  assumes "km \<in> set (group_into_modules pages)" and "p \<in> set (xm_pages (snd km))"
  shows "p \<in> set pages"
  using assms by (auto simp: group_into_modules_def Let_def split: if_splits)

lemma demo_crawl:
  "map_option (\<lambda>r. (fst r, visited_urls (snd r), map pg_url (ex_pages (snd r))))
     (crawl demo_lib demo_site ''https://host/'' 10) =
   Some (False, [''https://host/a'', ''https://host''], [''https://host'', ''https://host/a''])"
  by code_simp

lemma demo_hosts:
  "same_host demo_lib ''https://host/'' ''https://host/a''"
  "\<not> same_host demo_lib ''https://host/'' ''https://other/b''"
  by (simp_all add: same_host_def demo_lib_def demo_netloc_def after_scheme_def startswith_def
      url_delim_def)

text \<open>
  Claim C8. For every base URL, every site and every bound on the pages, the exploration
  returns, and it visits no URL whose host differs from that of the base URL: every URL
  that the crawl goes to, every page of the app map returned, every page listed in a module
  of the app map and every authentication page has the network location of the base URL.
\<close>

theorem explorer_stays_on_host:
  "(\<exists>r. explore lib web base_url max_pages = Some r) \<and>
   (\<forall>flag ex. crawl lib web base_url max_pages = Some (flag, ex) \<longrightarrow>
      (\<forall>u \<in> set (visited_urls ex). same_host lib base_url u)) \<and>
   (\<forall>m. explore lib web base_url max_pages = Some (Inr m) \<longrightarrow>
      (\<forall>p \<in> set (em_pages m). same_host lib base_url (pg_url p)) \<and>
      (\<forall>km \<in> set (em_modules m). \<forall>p \<in> set (xm_pages (snd km)). same_host lib base_url (pg_url p)) \<and>
      (\<forall>u \<in> set (em_auth_pages m). same_host lib base_url u))"
proof (intro conjI allI impI)
  from crawl_returns [of lib web base_url max_pages]
  show "\<exists>r. explore lib web base_url max_pages = Some r"
    by (auto simp: explore_def split: bool.splits)
next
  fix flag ex
  assume c: "crawl lib web base_url max_pages = Some (flag, ex)"
  show "\<forall>u \<in> set (visited_urls ex). same_host lib base_url u"
  proof (cases "netloc lib base_url")
    case None
    with c show ?thesis by (auto simp: crawl_def Explorer_init_def)
  next
    case (Some host)
    with crawl_inv_result [OF c] show ?thesis by (auto simp: crawl_inv_def same_host_def)
  qed
next
  fix m
  assume e: "explore lib web base_url max_pages = Some (Inr m)"
  then obtain ex where c: "crawl lib web base_url max_pages = Some (False, ex)"
    and m: "m = \<lparr>em_base_url = ex_base_url ex, em_total_pages = length (ex_pages ex),
                  em_pages = ex_pages ex, em_modules = group_into_modules (ex_pages ex),
                  em_auth_pages = ex_auth_pages ex\<rparr>"
    by (auto simp: explore_def split: option.splits bool.splits prod.splits)
  have host: "netloc lib base_url \<noteq> None"
  proof
    assume "netloc lib base_url = None"
    with c show False by (simp add: crawl_def)
  qed
  with crawl_inv_result [OF c]
  have pages: "\<forall>p \<in> set (ex_pages ex). same_host lib base_url (pg_url p)"
    and auth: "\<forall>u \<in> set (ex_auth_pages ex). same_host lib base_url u"
    by (auto simp: crawl_inv_def same_host_def)
  show "\<forall>p \<in> set (em_pages m). same_host lib base_url (pg_url p)" using pages m by simp
  show "\<forall>u \<in> set (em_auth_pages m). same_host lib base_url u" using auth m by simp
  show "\<forall>km \<in> set (em_modules m). \<forall>p \<in> set (xm_pages (snd km)). same_host lib base_url (pg_url p)"
    using pages m group_into_modules_pages [of _ "ex_pages ex"] by simp
qed

theorem explorer_stays_on_host_witness:
  "(\<exists>ex. crawl demo_lib demo_site ''https://host/'' 10 = Some (False, ex) \<and>
         visited_urls ex = [''https://host/a'', ''https://host''] \<and>
         list_all (same_host demo_lib ''https://host/'') (visited_urls ex)) \<and>
   \<not> same_host demo_lib ''https://host/'' ''https://other/b''"
proof -
  from demo_crawl obtain ex
    where c: "crawl demo_lib demo_site ''https://host/'' 10 = Some (False, ex)"
      and v: "visited_urls ex = [''https://host/a'', ''https://host'']"
    by auto
  from explorer_stays_on_host [of demo_lib demo_site "''https://host/''" 10] c
  have "\<forall>u \<in> set (visited_urls ex). same_host demo_lib ''https://host/'' u" by blast
  then have "list_all (same_host demo_lib ''https://host/'') (visited_urls ex)"
    by (simp add: list_all_iff)
  with c v demo_hosts(2) show ?thesis by blast
qed

section \<open>Proofs: the scenario executor\<close>

lemma run_steps_status:
  "fst (fst (run_steps d base_url steps completed w)) = ''passed'' \<or>
   fst (fst (run_steps d base_url steps completed w)) = ''failed''"
proof (induction steps arbitrary: completed w)
  case Nil
  then show ?case by simp
next
  case (Cons step steps)
  obtain r w1 where s: "do_step d base_url step w = (r, w1)" by (cases "do_step d base_url step w")
  show ?case
  proof (cases r)
    case (Ok u)
    with s Cons.IH [of "completed @ [st_description step]" w1] show ?thesis by simp
  next
    case (PlaywrightTimeout e)
    with s show ?thesis by simp
  next
    case (Error e)
    with s show ?thesis by simp
  qed
qed

lemma execute_scenario_status:
  "sr_status (fst (execute_scenario d scenario base_url w)) = ''passed'' \<or>
   sr_status (fst (execute_scenario d scenario base_url w)) = ''failed''"
  using run_steps_status [of d base_url "d_steps scenario" "[]" w]
  by (auto simp: execute_scenario_def split: prod.splits)

lemma status_ok_update:
  assumes "status_ok res" and "sr_status r = ''passed'' \<or> sr_status r = ''failed''"
  shows "status_ok (AList.update k r res)"
  using assms set_alist_update_subset [of k r res] unfolding status_ok_def by fastforce

lemma crashed_status: "sr_status (crashed e) = ''failed''"
  by (simp add: crashed_def)

lemma saved_results_ok:
  assumes "status_ok res" and "sr_status result = ''passed'' \<or> sr_status result = ''failed''"
  shows "status_ok (saved_results d scenario result w res)"
  using assms by (simp add: saved_results_def status_ok_update crashed_status split: outcome.splits)

lemma saved_results_keys:
  "fst ` set (saved_results d scenario result w res) = insert (d_id scenario) (fst ` set res)"
  by (simp add: saved_results_def dom_update split: outcome.splits)

lemma run_each_step:
  assumes "Some (d_id scenario) \<noteq> auth_id" and "pw_new_page d w = (Ok u, w1)"
    and "execute_scenario d scenario base_url w1 = (result, w2)"
  shows "run_each d base_url auth_id (scenario # rest) res published w =
     (case pw_close_page d (snd (save_runs d w2)) of
        (Ok u, w4) \<Rightarrow>
          run_each d base_url auth_id rest (saved_results d scenario result w2 res) True w4
      | (PlaywrightTimeout e, w4) \<Rightarrow> ((Some e, saved_results d scenario result w2 res, True), w4)
      | (Error e, w4) \<Rightarrow> ((Some e, saved_results d scenario result w2 res, True), w4))"
  using assms by (simp add: saved_results_def Let_def split: outcome.splits prod.splits)

lemma run_each_ok:
  assumes "status_ok res"
  shows "status_ok (fst (snd (fst (run_each d base_url auth_id scs res published w))))"
  using assms
proof (induction scs arbitrary: res published w)
  case Nil
  then show ?case by simp
next
  case (Cons scenario rest)
  show ?case
  proof (cases "Some (d_id scenario) = auth_id")
    case True
    with Cons show ?thesis by simp
  next
    case False
    obtain r w1 where np: "pw_new_page d w = (r, w1)" by (cases "pw_new_page d w")
    show ?thesis
    proof (cases r)
      case (Ok u)
      obtain result w2 where ex: "execute_scenario d scenario base_url w1 = (result, w2)"
        by (cases "execute_scenario d scenario base_url w1")
      have ok: "status_ok (saved_results d scenario result w2 res)"
        using Cons.prems execute_scenario_status [of d scenario base_url w1] ex
        by (simp add: saved_results_ok)
      obtain c w4 where cl: "pw_close_page d (snd (save_runs d w2)) = (c, w4)"
        by (cases "pw_close_page d (snd (save_runs d w2))")
      show ?thesis
        using run_each_step [OF False np [unfolded Ok] ex, of rest res published]
          cl ok Cons.IH [OF ok, of True w4]
        by (cases c) simp_all
    next
      case (PlaywrightTimeout e)
      with False np Cons.prems show ?thesis by simp
    next
      case (Error e)
      with False np Cons.prems show ?thesis by simp
    qed
  qed
qed

lemma run_each_keys:
  assumes "run_each d base_url auth_id scs res published w = ((None, res', published'), w')"
  shows "fst ` set res \<subseteq> fst ` set res' \<and>
         (\<forall>s \<in> set scs. Some (d_id s) \<noteq> auth_id \<longrightarrow> d_id s \<in> fst ` set res')"
  using assms
proof (induction scs arbitrary: res published w)
  case Nil
  then show ?case by simp
next
  case (Cons scenario rest)
  show ?case
  proof (cases "Some (d_id scenario) = auth_id")
    case True
    with Cons.prems have "run_each d base_url auth_id rest res published w = ((None, res', published'), w')"
      by simp
    from Cons.IH [OF this] True show ?thesis by simp
  next
    case False
    obtain r w1 where np: "pw_new_page d w = (r, w1)" by (cases "pw_new_page d w")
    show ?thesis
    proof (cases r)
      case (Ok u)
      obtain result w2 where ex: "execute_scenario d scenario base_url w1 = (result, w2)"
        by (cases "execute_scenario d scenario base_url w1")
      obtain c w4 where cl: "pw_close_page d (snd (save_runs d w2)) = (c, w4)"
        by (cases "pw_close_page d (snd (save_runs d w2))")
      from Cons.prems run_each_step [OF False np [unfolded Ok] ex, of rest res published] cl
      have "run_each d base_url auth_id rest (saved_results d scenario result w2 res) True w4 =
          ((None, res', published'), w')"
        by (cases c) simp_all
      from Cons.IH [OF this] False show ?thesis by (auto simp: saved_results_keys)
    next
      case (PlaywrightTimeout e)
      with False np Cons.prems show ?thesis by simp
    next
      case (Error e)
      with False np Cons.prems show ?thesis by simp
    qed
  qed
qed

lemma run_auth_first_ok:
  "status_ok (snd (fst (run_auth_first d base_url auth_scenario w)))"
proof (cases auth_scenario)
  case None
  then show ?thesis by (simp add: run_auth_first_def status_ok_def)
next
  case (Some a)
  obtain r w1 where np: "pw_new_page d w = (r, w1)" by (cases "pw_new_page d w")
  obtain result w2 where ex: "execute_scenario d a base_url w1 = (result, w2)"
    by (cases "execute_scenario d a base_url w1")
  from execute_scenario_status [of d a base_url w1] ex
  have "sr_status result = ''passed'' \<or> sr_status result = ''failed''" by simp
  with Some np ex show ?thesis
    by (cases r) (simp_all add: run_auth_first_def status_ok_def)
qed

lemma run_auth_first_keys:
  assumes "run_auth_first d base_url (Some a) w = ((None, res), w')"
  shows "d_id a \<in> fst ` set res"
proof -
  obtain r w1 where np: "pw_new_page d w = (r, w1)" by (cases "pw_new_page d w")
  obtain result w2 where ex: "execute_scenario d a base_url w1 = (result, w2)"
    by (cases "execute_scenario d a base_url w1")
  from assms np ex show ?thesis by (cases r) (auto simp: run_auth_first_def)
qed

lemma run_failed_ok: "status_ok res \<Longrightarrow> status_ok (rr_results (run_failed e res published))"
  by (simp add: run_failed_def status_ok_def)

lemma run_failed_status: "rr_status (run_failed e res published) = ''failed''"
  by (simp add: run_failed_def)

lemma demo_run_status:
  "rr_status (fst (run_scenarios_task demo_driver ''https://host'' [failing_login, dependent_view] ())) = ''completed''"
  by code_simp

lemma find_auth_scenario_in: "find_auth_scenario scs = Some a \<Longrightarrow> a \<in> set scs"
  by (auto simp: find_auth_scenario_def find_Some_iff split: option.splits)

lemma alist_update_inv:
  assumes "\<forall>kr \<in> set res. P kr" and "P (k, r)"
  shows "\<forall>kr \<in> set (AList.update k r res). P kr"
  using assms set_alist_update_subset [of k r res] by blast

lemma saved_results_inv:
  assumes inv: "\<forall>kr \<in> set res. P kr"
    and ran: "P (d_id scenario, result)"
    and crash: "\<And>e. fst (save_runs d w) = PlaywrightTimeout e \<or> fst (save_runs d w) = Error e \<Longrightarrow>
                  P (d_id scenario, crashed e)"
  shows "\<forall>kr \<in> set (saved_results d scenario result w res). P kr"
proof (cases "fst (save_runs d w)")
  case (Ok u)
  then show ?thesis using alist_update_inv [OF inv ran] by (simp add: saved_results_def)
next
  case (PlaywrightTimeout e)
  then have "P (d_id scenario, crashed e)" using crash by simp
  from alist_update_inv [OF alist_update_inv [OF inv ran] this] PlaywrightTimeout
  show ?thesis by (simp add: saved_results_def)
next
  case (Error e)
  then have "P (d_id scenario, crashed e)" using crash by simp
  from alist_update_inv [OF alist_update_inv [OF inv ran] this] Error
  show ?thesis by (simp add: saved_results_def)
qed

lemma run_each_inv:
  assumes inv: "\<forall>kr \<in> set res. P kr"
    and ran: "\<And>s w0. s \<in> set scs \<Longrightarrow> P (d_id s, fst (execute_scenario d s base_url w0))"
    and crash: "\<And>s w0 e. s \<in> set scs \<Longrightarrow>
       fst (save_runs d (snd (execute_scenario d s base_url w0))) = PlaywrightTimeout e \<or>
       fst (save_runs d (snd (execute_scenario d s base_url w0))) = Error e \<Longrightarrow>
       P (d_id s, crashed e)"
  shows "\<forall>kr \<in> set (fst (snd (fst (run_each d base_url auth_id scs res published w)))). P kr"
  using assms
proof (induction scs arbitrary: res published w)
  case Nil
  then show ?case by simp
next
  case (Cons scenario rest)
  have ran': "\<And>s w0. s \<in> set rest \<Longrightarrow> P (d_id s, fst (execute_scenario d s base_url w0))"
    using Cons.prems(2) by simp
  have crash': "\<And>s w0 e. s \<in> set rest \<Longrightarrow>
       fst (save_runs d (snd (execute_scenario d s base_url w0))) = PlaywrightTimeout e \<or>
       fst (save_runs d (snd (execute_scenario d s base_url w0))) = Error e \<Longrightarrow>
       P (d_id s, crashed e)"
    using Cons.prems(3) by simp
  show ?case
  proof (cases "Some (d_id scenario) = auth_id")
    case True
    with Cons.IH [OF Cons.prems(1) ran' crash'] show ?thesis by simp
  next
    case False
    obtain r w1 where np: "pw_new_page d w = (r, w1)" by (cases "pw_new_page d w")
    show ?thesis
    proof (cases r)
      case (Ok u)
      obtain result w2 where ex: "execute_scenario d scenario base_url w1 = (result, w2)"
        by (cases "execute_scenario d scenario base_url w1")
      have one: "P (d_id scenario, result)"
        using Cons.prems(2) [of scenario w1] ex by simp
      have two: "P (d_id scenario, crashed e)"
        if "fst (save_runs d w2) = PlaywrightTimeout e \<or> fst (save_runs d w2) = Error e" for e
        using Cons.prems(3) [of scenario w1 e] ex that by simp
      have ok: "\<forall>kr \<in> set (saved_results d scenario result w2 res). P kr"
        using Cons.prems(1) one two by (rule saved_results_inv)
      obtain c w4 where cl: "pw_close_page d (snd (save_runs d w2)) = (c, w4)"
        by (cases "pw_close_page d (snd (save_runs d w2))")
      show ?thesis
        using run_each_step [OF False np [unfolded Ok] ex, of rest res published]
          cl ok Cons.IH [OF ok ran' crash']
        by (cases c) simp_all
    next
      case (PlaywrightTimeout e)
      with False np Cons.prems(1) show ?thesis by simp
    next
      case (Error e)
      with False np Cons.prems(1) show ?thesis by simp
    qed
  qed
qed

lemma run_auth_first_inv:
  assumes "\<And>w0. P (d_id a, fst (execute_scenario d a base_url w0))"
  shows "\<forall>kr \<in> set (snd (fst (run_auth_first d base_url (Some a) w))). P kr"
proof -
  obtain r w1 where np: "pw_new_page d w = (r, w1)" by (cases "pw_new_page d w")
  obtain result w2 where ex: "execute_scenario d a base_url w1 = (result, w2)"
    by (cases "execute_scenario d a base_url w1")
  from assms [of w1] ex have "P (d_id a, result)" by simp
  with np ex show ?thesis by (cases r) (simp_all add: run_auth_first_def)
qed

lemma run_results_cases:
  "rr_results (fst (run_scenarios_task d base_url scs w)) = [] \<or>
   (\<exists>w1 w2 published.
      rr_results (fst (run_scenarios_task d base_url scs w)) =
        fst (snd (fst (run_each d base_url (map_option d_id (find_auth_scenario scs)) scs
          (snd (fst (run_auth_first d base_url (find_auth_scenario scs) w1))) published w2))))"
proof -
  let ?auth = "find_auth_scenario scs"
  obtain l w1 where launch: "pw_launch d w = (l, w1)" by (cases "pw_launch d w")
  obtain ae res w2 where auth: "run_auth_first d base_url ?auth w1 = ((ae, res), w2)"
    by (cases "run_auth_first d base_url ?auth w1") auto
  obtain ee res' published w3
    where each: "run_each d base_url (map_option d_id ?auth) scs res False w2 =
      ((ee, res', published), w3)"
    by (cases "run_each d base_url (map_option d_id ?auth) scs res False w2") auto
  obtain c w4 where close: "pw_close_browser d w3 = (c, w4)" by (cases "pw_close_browser d w3")
  have res: "res = snd (fst (run_auth_first d base_url ?auth w1))" using auth by simp
  have res': "res' = fst (snd (fst (run_each d base_url (map_option d_id ?auth) scs
      (snd (fst (run_auth_first d base_url ?auth w1))) False w2)))"
    using each res by simp
  have "rr_results (fst (run_scenarios_task d base_url scs w)) = [] \<or>
      rr_results (fst (run_scenarios_task d base_url scs w)) = res'"
  proof (cases l)
    case (Ok u)
    show ?thesis
    proof (cases ae)
      case (Some e)
      with Ok launch auth show ?thesis
        by (simp add: run_scenarios_task_def Let_def run_failed_def)
    next
      case None
      show ?thesis
      proof (cases ee)
        case (Some e)
        with Ok None launch auth each show ?thesis
          by (simp add: run_scenarios_task_def Let_def run_failed_def)
      next
        case no_exn: None
        with Ok None launch auth each close show ?thesis
          by (cases c) (simp_all add: run_scenarios_task_def Let_def run_failed_def)
      qed
    qed
  next
    case (PlaywrightTimeout e)
    with launch show ?thesis by (simp add: run_scenarios_task_def run_failed_def)
  next
    case (Error e)
    with launch show ?thesis by (simp add: run_scenarios_task_def run_failed_def)
  qed
  with res' show ?thesis by blast
qed

lemma run_results_inv:
  assumes ran: "\<And>s w0. s \<in> set scs \<Longrightarrow> P (d_id s, fst (execute_scenario d s base_url w0))"
    and crash: "\<And>s w0 e. s \<in> set scs \<Longrightarrow>
       fst (save_runs d (snd (execute_scenario d s base_url w0))) = PlaywrightTimeout e \<or>
       fst (save_runs d (snd (execute_scenario d s base_url w0))) = Error e \<Longrightarrow>
       P (d_id s, crashed e)"
  shows "\<forall>kr \<in> set (rr_results (fst (run_scenarios_task d base_url scs w))). P kr"
proof -
  let ?auth = "find_auth_scenario scs"
  have first: "\<forall>kr \<in> set (snd (fst (run_auth_first d base_url ?auth w1))). P kr" for w1
  proof (cases ?auth)
    case None
    then show ?thesis by (simp add: run_auth_first_def)
  next
    case (Some a)
    then have "a \<in> set scs" by (rule find_auth_scenario_in)
    then have "\<And>w0. P (d_id a, fst (execute_scenario d a base_url w0))" by (rule ran)
    from run_auth_first_inv [of P a d base_url, OF this] Some show ?thesis by simp
  qed
  have "\<forall>kr \<in> set (fst (snd (fst (run_each d base_url (map_option d_id ?auth) scs
      (snd (fst (run_auth_first d base_url ?auth w1))) published w2)))). P kr" for w1 w2 published
    using first ran crash by (rule run_each_inv)
  with run_results_cases [of d base_url scs w] show ?thesis by auto
qed

lemma execute_scenario_core:
  "core s' = core s \<Longrightarrow> execute_scenario d s' base_url w = execute_scenario d s base_url w"
  by (simp add: core_def execute_scenario_def)

lemma run_each_core:
  "map core scs' = map core scs \<Longrightarrow>
   run_each d base_url auth_id scs' res published w = run_each d base_url auth_id scs res published w"
proof (induction scs arbitrary: scs' res published w)
  case Nil
  then show ?case by simp
next
  case (Cons s rest)
  then obtain s' rest' where scs': "scs' = s' # rest'" and c: "core s' = core s"
    and r: "map core rest' = map core rest"
    by (cases scs') auto
  from c have i: "d_id s' = d_id s" by (simp add: core_def)
  note e = execute_scenario_core [OF c]
  note ih = Cons.IH [OF r]
  show ?case unfolding scs'
    by (simp add: i e ih Let_def split: prod.splits outcome.splits)
qed

lemma run_auth_first_core:
  "map_option core a' = map_option core a \<Longrightarrow>
   run_auth_first d base_url a' w = run_auth_first d base_url a w"
proof (cases a)
  case None
  assume "map_option core a' = map_option core a"
  with None show ?thesis by simp
next
  case (Some s)
  assume "map_option core a' = map_option core a"
  with Some obtain s' where a': "a' = Some s'" and c: "core s' = core s" by (cases a') auto
  from c have i: "d_id s' = d_id s" by (simp add: core_def)
  show ?thesis unfolding a' Some run_auth_first_def
    by (simp add: i execute_scenario_core [OF c] split: prod.splits outcome.splits)
qed

lemma run_scenarios_task_core:
  assumes "map core scs' = map core scs"
    and "map_option core (find_auth_scenario scs') = map_option core (find_auth_scenario scs)"
  shows "run_scenarios_task d base_url scs' w = run_scenarios_task d base_url scs w"
proof -
  have "map_option d_id a = map_option fst (map_option core a)" for a :: "ScenarioDict option"
    by (cases a) (simp_all add: core_def)
  with assms(2)
  have ids: "map_option d_id (find_auth_scenario scs') = map_option d_id (find_auth_scenario scs)"
    by simp
  have first: "run_auth_first d base_url (find_auth_scenario scs') =
      run_auth_first d base_url (find_auth_scenario scs)"
    using run_auth_first_core [OF assms(2)] by (intro ext)
  have others: "run_each d base_url (map_option d_id (find_auth_scenario scs')) scs' =
      run_each d base_url (map_option d_id (find_auth_scenario scs)) scs"
    unfolding ids using run_each_core [OF assms(1)] by (intro ext)
  show ?thesis unfolding run_scenarios_task_def Let_def first others by (rule refl)
qed

lemma run_completed_keys:
  assumes fin: "rr_status (fst (run_scenarios_task d base_url scs w)) = ''completed''"
  shows "\<forall>s \<in> set scs. d_id s \<in> fst ` set (rr_results (fst (run_scenarios_task d base_url scs w)))"
proof -
  let ?run = "fst (run_scenarios_task d base_url scs w)"
  let ?auth = "find_auth_scenario scs"
  obtain l w1 where launch: "pw_launch d w = (l, w1)" by (cases "pw_launch d w")
  obtain ae res w2 where auth: "run_auth_first d base_url ?auth w1 = ((ae, res), w2)"
    by (cases "run_auth_first d base_url ?auth w1") auto
  obtain ee res' published w3
    where each: "run_each d base_url (map_option d_id ?auth) scs res False w2 =
      ((ee, res', published), w3)"
    by (cases "run_each d base_url (map_option d_id ?auth) scs res False w2") auto
  obtain c w4 where close: "pw_close_browser d w3 = (c, w4)" by (cases "pw_close_browser d w3")
  have l: "\<exists>u. l = Ok u"
    using fin launch by (cases l) (simp_all add: run_scenarios_task_def run_failed_status)
  have ae: "ae = None"
    using fin launch auth l
    by (cases ae) (auto simp: run_scenarios_task_def Let_def run_failed_status)
  have ee: "ee = None"
    using fin launch auth each l ae
    by (cases ee) (auto simp: run_scenarios_task_def Let_def run_failed_status)
  have c: "\<exists>u. c = Ok u"
    using fin launch auth each close l ae ee
    by (cases c) (auto simp: run_scenarios_task_def Let_def run_failed_status)
  have results: "rr_results ?run = res'"
    using launch auth each close l ae ee c by (auto simp: run_scenarios_task_def Let_def)
  from run_each_keys [OF each [unfolded ee]]
  have sub: "fst ` set res \<subseteq> fst ` set res'"
    and others: "\<forall>s \<in> set scs. Some (d_id s) \<noteq> map_option d_id ?auth \<longrightarrow> d_id s \<in> fst ` set res'"
    by blast+
  have "d_id s \<in> fst ` set res'" if "s \<in> set scs" for s
  proof (cases "Some (d_id s) = map_option d_id ?auth")
    case False
    with others that show ?thesis by blast
  next
    case True
    then obtain a where a: "?auth = Some a" and "d_id a = d_id s" by (cases ?auth) auto
    with run_auth_first_keys [of d base_url a w1 res w2] auth ae sub show ?thesis by auto
  qed
  with results show ?thesis by simp
qed

text \<open>
  Claim C6, as the specification states it: a scenario whose dependency failed is not
  executed, and its result is \<open>skipped\<close> with the message \<open>dependency <id> <status>\<close>. In
  the run of a login scenario that fails and a scenario that depends on it, the dependent
  scenario is executed: both of its steps complete and its result is \<open>passed\<close>, with no
  message.
\<close>

theorem dependent_scenario_not_skipped:
  "map (\<lambda>kr. (fst kr, sr_status (snd kr), sr_steps_completed (snd kr), sr_error (snd kr)))
     (rr_results (fst (run_scenarios_task demo_driver ''https://host''
        [failing_login, dependent_view] ()))) =
   [(''auth_001'', ''failed'', [''Go to login page''], Some ''Could not find element: #missing''),
    (''dash_005'', ''passed'', [''Go to dashboard'', ''Verify page loads''], None)]"
  by code_simp

text \<open>
  Claim C6, amended. No result of a run has the status \<open>skipped\<close>, and none is made
  without executing its scenario: whatever the browser does, every result belongs to a
  scenario of the list and is the result that \<open>execute_scenario\<close> returns for that
  scenario, with the status \<open>passed\<close> or \<open>failed\<close>; the one other result is the dictionary
  of the status \<open>failed\<close> whose error is the exception that saving the run record raised
  after the scenario ran. In a run that completes every scenario of the list has such a
  result, also one whose \<open>depends_on\<close> names a scenario that failed. \<open>depends_on\<close> decides
  only which scenario runs first: two lists whose scenarios agree in id, name and steps,
  and in which the same scenario runs first, give the same run.
\<close>

theorem dependent_scenarios_are_run:
  "(\<forall>kr \<in> set (rr_results (fst (run_scenarios_task d base_url scs w))).
      (sr_status (snd kr) = ''passed'' \<or> sr_status (snd kr) = ''failed'') \<and>
      (\<exists>s \<in> set scs. \<exists>w0. fst kr = d_id s \<and>
         (snd kr = fst (execute_scenario d s base_url w0) \<or>
          (\<exists>e. snd kr = crashed e \<and>
             (fst (save_runs d (snd (execute_scenario d s base_url w0))) = PlaywrightTimeout e \<or>
              fst (save_runs d (snd (execute_scenario d s base_url w0))) = Error e))))) \<and>
   (rr_status (fst (run_scenarios_task d base_url scs w)) = ''completed'' \<longrightarrow>
      (\<forall>s \<in> set scs. d_id s \<in> fst ` set (rr_results (fst (run_scenarios_task d base_url scs w))))) \<and>
   (\<forall>scs'. map core scs' = map core scs \<and>
           map_option core (find_auth_scenario scs') = map_option core (find_auth_scenario scs) \<longrightarrow>
           run_scenarios_task d base_url scs' w = run_scenarios_task d base_url scs w)"
proof -
  let ?P = "\<lambda>kr. (sr_status (snd kr) = ''passed'' \<or> sr_status (snd kr) = ''failed'') \<and>
      (\<exists>s \<in> set scs. \<exists>w0. fst kr = d_id s \<and>
         (snd kr = fst (execute_scenario d s base_url w0) \<or>
          (\<exists>e. snd kr = crashed e \<and>
             (fst (save_runs d (snd (execute_scenario d s base_url w0))) = PlaywrightTimeout e \<or>
              fst (save_runs d (snd (execute_scenario d s base_url w0))) = Error e))))"
  have ran: "?P (d_id s, fst (execute_scenario d s base_url w0))" if "s \<in> set scs" for s w0
    using that execute_scenario_status [of d s base_url w0] by auto
  have crash: "?P (d_id s, crashed e)"
    if "s \<in> set scs"
      and "fst (save_runs d (snd (execute_scenario d s base_url w0))) = PlaywrightTimeout e \<or>
           fst (save_runs d (snd (execute_scenario d s base_url w0))) = Error e" for s w0 e
    using that crashed_status [of e] by auto
  have one: "\<forall>kr \<in> set (rr_results (fst (run_scenarios_task d base_url scs w))). ?P kr"
    using ran crash by (rule run_results_inv [where P = ?P])
  from one run_completed_keys [of d base_url scs w] run_scenarios_task_core [of _ scs d base_url w]
  show ?thesis by blast
qed

theorem dependent_scenarios_are_run_witness:
  "rr_status (fst (run_scenarios_task demo_driver ''https://host''
      [failing_login, dependent_view] ())) = ''completed'' \<and>
   d_depends_on dependent_view = Some (d_id failing_login) \<and>
   d_id dependent_view \<in> fst ` set (rr_results (fst (run_scenarios_task demo_driver ''https://host''
      [failing_login, dependent_view] ()))) \<and>
   map core [self_declared_login, undeclared_view] = map core [failing_login, dependent_view] \<and>
   d_depends_on undeclared_view = None \<and>
   run_scenarios_task demo_driver ''https://host'' [self_declared_login, undeclared_view] () =
   run_scenarios_task demo_driver ''https://host'' [failing_login, dependent_view] ()"
proof -
  have dep: "d_depends_on dependent_view = Some (d_id failing_login)"
    by (simp add: dependent_view_def failing_login_def)
  have none: "d_depends_on undeclared_view = None" by (simp add: undeclared_view_def)
  have mem: "dependent_view \<in> set [failing_login, dependent_view]" by simp
  have same: "map core [self_declared_login, undeclared_view] = map core [failing_login, dependent_view]"
    by (simp add: core_def self_declared_login_def undeclared_view_def)
  have first: "map_option core (find_auth_scenario [self_declared_login, undeclared_view]) =
      map_option core (find_auth_scenario [failing_login, dependent_view])"
    by (simp add: find_auth_scenario_def core_def self_declared_login_def undeclared_view_def
        failing_login_def dependent_view_def)
  from dependent_scenarios_are_run [of demo_driver "''https://host''"
      "[failing_login, dependent_view]" "()"] demo_run_status mem same first
  have "d_id dependent_view \<in> fst ` set (rr_results (fst (run_scenarios_task demo_driver ''https://host''
      [failing_login, dependent_view] ())))"
    and "run_scenarios_task demo_driver ''https://host'' [self_declared_login, undeclared_view] () =
      run_scenarios_task demo_driver ''https://host'' [failing_login, dependent_view] ()"
    by blast+
  with demo_run_status dep none same show ?thesis by simp
qed

text \<open>
  Claim C7, as the specification states it: an \<open>assert\<close> step whose predicate does not hold
  fails the scenario with the predicate name as the message, and no further step runs. On
  a page that shows no error element, the scenario that asserts \<open>error_message_visible\<close>
  and then \<open>validation_error\<close> completes all its steps and passes.
\<close>

theorem unmet_assertions_pass:
  "fst (find_error demo_driver error_selectors ()) = False \<and>
   sr_status (fst (execute_scenario demo_driver wrong_password ''https://host'' ())) = ''passed'' \<and>
   sr_error (fst (execute_scenario demo_driver wrong_password ''https://host'' ())) = None \<and>
   sr_steps_completed (fst (execute_scenario demo_driver wrong_password ''https://host'' ())) =
     [''Go to login page'', ''Verify error message shown'', ''Verify validation error shown'']"
  by code_simp

lemma do_assert_other:
  "target \<noteq> ''page_loaded'' \<Longrightarrow> fst (do_assert d target w) = Ok ()"
  by (simp add: do_assert_def)

text \<open>
  Claim C7, amended. Of the predicates only \<open>page_loaded\<close> can fail a scenario: when the
  title of the page is empty, the result is \<open>failed\<close> with the error \<open>Page did not load\<close>
  and no further step runs; when the title is not empty, the step is completed and the next
  step runs. An \<open>assert\<close> step with any other target (\<open>url_changed\<close>,
  \<open>error_message_visible\<close>, \<open>validation_error\<close>, \<open>no_unauthorized_access\<close>, ...) never
  fails: it is completed and the next step runs.
\<close>

theorem assert_step:
  assumes "st_action step = ''assert''"
  shows "(st_target step \<noteq> ''page_loaded'' \<longrightarrow>
            run_steps d base_url (step # steps) completed w =
              run_steps d base_url steps (completed @ [st_description step])
                (snd (do_assert d (st_target step) w))) \<and>
         (st_target step = ''page_loaded'' \<longrightarrow>
            (\<forall>t w1. pw_title d w = (Ok t, w1) \<longrightarrow>
               run_steps d base_url (step # steps) completed w =
                 (if t = [] then ((''failed'', Some ''Page did not load'', completed), w1)
                  else run_steps d base_url steps (completed @ [st_description step]) w1)))"
proof (intro conjI impI allI)
  assume other: "st_target step \<noteq> ''page_loaded''"
  have "do_step d base_url step w = do_assert d (st_target step) w"
    using assms by (simp add: do_step_def Let_def)
  moreover obtain r w1 where a: "do_assert d (st_target step) w = (r, w1)"
    by (cases "do_assert d (st_target step) w")
  moreover have "r = Ok ()" using do_assert_other [OF other, of d w] a by simp
  ultimately show "run_steps d base_url (step # steps) completed w =
      run_steps d base_url steps (completed @ [st_description step])
        (snd (do_assert d (st_target step) w))"
    by simp
next
  fix t w1
  assume loaded: "st_target step = ''page_loaded''" and t: "pw_title d w = (Ok t, w1)"
  have "do_step d base_url step w = do_assert d ''page_loaded'' w"
    using assms loaded by (simp add: do_step_def Let_def)
  also have "\<dots> = (if t \<noteq> [] then (Ok (), w1) else (Error ''Page did not load'', w1))"
    using t by (simp add: do_assert_def)
  finally show "run_steps d base_url (step # steps) completed w =
      (if t = [] then ((''failed'', Some ''Page did not load'', completed), w1)
       else run_steps d base_url steps (completed @ [st_description step]) w1)"
    by simp
qed

theorem assert_step_witness:
  "st_action (Step ''assert'' ''page_loaded'' None ''Verify page loads'') = ''assert'' \<and>
   pw_title blank_driver () = (Ok [], ()) \<and>
   run_steps blank_driver ''https://host''
     [Step ''assert'' ''page_loaded'' None ''Verify page loads'',
      Step ''navigate'' ''/next'' None ''Go on''] [] () =
     ((''failed'', Some ''Page did not load'', []), ())"
proof -
  have a: "st_action (Step ''assert'' ''page_loaded'' None ''Verify page loads'') = ''assert''"
    by (simp add: Step_def)
  have t: "pw_title blank_driver () = (Ok [], ())"
    by (simp add: blank_driver_def demo_driver_def)
  have "st_target (Step ''assert'' ''page_loaded'' None ''Verify page loads'') = ''page_loaded''"
    by (simp add: Step_def)
  with assert_step [OF a, of blank_driver "''https://host''"
      "[Step ''navigate'' ''/next'' None ''Go on'']" "[]" "()"] t
  have "run_steps blank_driver ''https://host''
     [Step ''assert'' ''page_loaded'' None ''Verify page loads'',
      Step ''navigate'' ''/next'' None ''Go on''] [] () =
     ((''failed'', Some ''Page did not load'', []), ())"
    by simp
  with a t show ?thesis by blast
qed
end
